theory Spec2Isabelle
  imports Main "HOL-Library.Multiset" "HOL-Library.Char_ord" "HOL-Library.List_Lexorder"
begin

section \<open>The Go standard library, as far as the program uses it\<close>

text \<open>
  Go strings are byte sequences; they are modelled as \<open>string\<close> (a list of 8-bit
  characters). The functions below follow the documented behaviour of the packages
  \<open>strings\<close> and \<open>strconv\<close> on such byte sequences.
\<close>

subsection \<open>Package strings\<close>

definition HasPrefix :: "string \<Rightarrow> string \<Rightarrow> bool" where
  "HasPrefix s p = (take (length p) s = p)"

definition HasSuffix :: "string \<Rightarrow> string \<Rightarrow> bool" where
  "HasSuffix s p = (length p \<le> length s \<and> drop (length s - length p) s = p)"

definition TrimPrefix :: "string \<Rightarrow> string \<Rightarrow> string" where
  "TrimPrefix s p = (if HasPrefix s p then drop (length p) s else s)"

definition TrimSuffix :: "string \<Rightarrow> string \<Rightarrow> string" where
  "TrimSuffix s p = (if HasSuffix s p then take (length s - length p) s else s)"

text \<open>\<open>strings.Contains(s, sub)\<close>: \<open>sub\<close> occurs somewhere in \<open>s\<close>.\<close>

fun Contains :: "string \<Rightarrow> string \<Rightarrow> bool" where
  "Contains [] sub = (sub = [])"
| "Contains (c # cs) sub = (HasPrefix (c # cs) sub \<or> Contains cs sub)"

text \<open>
  \<open>strings.Split(s, sep)\<close> for a separator of one byte, which is how every call
  site of the program uses it (\<open>"."\<close> and \<open>"="\<close>): the result has one more element
  than \<open>s\<close> has separators, and \<open>Split("", sep)\<close> is the one-element list of the
  empty string.
\<close>

fun Split :: "string \<Rightarrow> char \<Rightarrow> string list" where
  "Split [] sep = [[]]"
| "Split (c # cs) sep =
     (if c = sep then [] # Split cs sep
      else (case Split cs sep of [] \<Rightarrow> [[c]] | p # ps \<Rightarrow> (c # p) # ps))"

text \<open>\<open>strings.Join(parts, sep)\<close>.\<close>

fun Join :: "string list \<Rightarrow> string \<Rightarrow> string" where
  "Join [] sep = []"
| "Join [p] sep = p"
| "Join (p # q # ps) sep = p @ sep @ Join (q # ps) sep"

text \<open>
  \<open>strings.LastIndex(s, sep)\<close> for a separator of one byte: the index of its last
  occurrence, or \<open>-1\<close>.
\<close>

definition LastIndex :: "string \<Rightarrow> char \<Rightarrow> int" where
  "LastIndex s sep =
     (if sep \<in> set s then int (length s) - 1 - int (length (takeWhile (\<lambda>c. c \<noteq> sep) (rev s)))
      else - 1)"

text \<open>\<open>strings.Trim(s, cutset)\<close> for a cutset of ASCII bytes.\<close>

definition Trim :: "string \<Rightarrow> string \<Rightarrow> string" where
  "Trim s cutset =
     rev (dropWhile (\<lambda>c. c \<in> set cutset) (rev (dropWhile (\<lambda>c. c \<in> set cutset) s)))"

text \<open>
  \<open>strings.TrimSpace\<close> removes leading and trailing white space as Unicode defines
  it. On the UTF-8 bytes of a Go string these are the following byte sequences: the six
  ASCII spaces, U+0085, U+00A0, U+1680, U+2000 to U+200A, U+2028, U+2029, U+202F,
  U+205F and U+3000.
\<close>

definition space_runes :: "string list" where
  "space_runes =
     [[CHR 0x09], [CHR 0x0A], [CHR 0x0B], [CHR 0x0C], [CHR 0x0D], [CHR 0x20],
      [CHR 0xC2, CHR 0x85], [CHR 0xC2, CHR 0xA0], [CHR 0xE1, CHR 0x9A, CHR 0x80],
      [CHR 0xE2, CHR 0x80, CHR 0x80], [CHR 0xE2, CHR 0x80, CHR 0x81],
      [CHR 0xE2, CHR 0x80, CHR 0x82], [CHR 0xE2, CHR 0x80, CHR 0x83],
      [CHR 0xE2, CHR 0x80, CHR 0x84], [CHR 0xE2, CHR 0x80, CHR 0x85],
      [CHR 0xE2, CHR 0x80, CHR 0x86], [CHR 0xE2, CHR 0x80, CHR 0x87],
      [CHR 0xE2, CHR 0x80, CHR 0x88], [CHR 0xE2, CHR 0x80, CHR 0x89],
      [CHR 0xE2, CHR 0x80, CHR 0x8A], [CHR 0xE2, CHR 0x80, CHR 0xA8],
      [CHR 0xE2, CHR 0x80, CHR 0xA9], [CHR 0xE2, CHR 0x80, CHR 0xAF],
      [CHR 0xE2, CHR 0x81, CHR 0x9F], [CHR 0xE3, CHR 0x80, CHR 0x80]]"

text \<open>The width in bytes of the white-space rune a string starts with, or 0.\<close>

definition leading_space :: "string \<Rightarrow> nat" where
  "leading_space s =
     (case filter (\<lambda>w. HasPrefix s w) space_runes of [] \<Rightarrow> 0 | w # _ \<Rightarrow> length w)"

text \<open>The same for the rune a string ends with.\<close>

definition trailing_space :: "string \<Rightarrow> nat" where
  "trailing_space s =
     (case filter (\<lambda>w. HasSuffix s w) space_runes of [] \<Rightarrow> 0 | w # _ \<Rightarrow> length w)"

function TrimLeftSpace :: "string \<Rightarrow> string" where
  "TrimLeftSpace s =
     (if s \<noteq> [] \<and> 0 < leading_space s then TrimLeftSpace (drop (leading_space s) s) else s)"
  by pat_completeness auto
termination
  by (relation "measure length") auto

function TrimRightSpace :: "string \<Rightarrow> string" where
  "TrimRightSpace s =
     (if s \<noteq> [] \<and> 0 < trailing_space s
      then TrimRightSpace (take (length s - trailing_space s) s) else s)"
  by pat_completeness auto
termination
  by (relation "measure length") auto

declare TrimLeftSpace.simps [simp del] TrimRightSpace.simps [simp del]

definition TrimSpace :: "string \<Rightarrow> string" where
  "TrimSpace s = TrimRightSpace (TrimLeftSpace s)"

subsection \<open>Package strconv\<close>

text \<open>
  \<open>strconv.Atoi\<close> on a 64-bit platform. The program drops the error that \<open>Atoi\<close>
  returns and keeps the number: 0 after a syntax error, the nearest bound of \<open>int64\<close>
  after a range error. \<open>ParseUint\<close> reads left to right and stops at the first byte
  that is not a digit (a syntax error) or at the first digit with which the value
  leaves \<open>uint64\<close> (a range error), whichever comes first.
\<close>

definition is_digit :: "char \<Rightarrow> bool" where
  "is_digit c = (CHR ''0'' \<le> c \<and> c \<le> CHR ''9'')"

definition digit_val :: "char \<Rightarrow> nat" where
  "digit_val c = of_char c - 48"

datatype uint_result = UVal nat | USyntax | URange

fun ParseUint_loop :: "nat \<Rightarrow> string \<Rightarrow> uint_result" where
  "ParseUint_loop n [] = UVal n"
| "ParseUint_loop n (c # cs) =
     (if \<not> is_digit c then USyntax
      else if 2 ^ 64 - 1 < n * 10 + digit_val c then URange
      else ParseUint_loop (n * 10 + digit_val c) cs)"

definition ParseUint :: "string \<Rightarrow> uint_result" where
  "ParseUint s = (if s = [] then USyntax else ParseUint_loop 0 s)"

definition Atoi :: "string \<Rightarrow> int" where
  "Atoi s =
     (if s = [] then 0
      else
        let neg = (hd s = CHR ''-'');
            ds = (if hd s = CHR ''+'' \<or> hd s = CHR ''-'' then tl s else s)
        in case ParseUint ds of
             USyntax \<Rightarrow> 0
           | URange \<Rightarrow> (if neg then - (2 ^ 63) else 2 ^ 63 - 1)
           | UVal un \<Rightarrow>
               (if \<not> neg \<and> 2 ^ 63 \<le> un then 2 ^ 63 - 1
                else if neg \<and> 2 ^ 63 < un then - (2 ^ 63)
                else if neg then - int un else int un))"

subsection \<open>Package unicode/utf8\<close>

text \<open>
  Go's \<open>regexp\<close> reads a string rune by rune. The width of the rune a string starts
  with is that of \<open>utf8.DecodeRuneInString\<close>: one byte for ASCII and for every byte that
  does not start a well-formed encoding. \<open>runes\<close> cuts a string into its runes.
\<close>

definition in_range :: "nat \<Rightarrow> nat \<Rightarrow> char \<Rightarrow> bool" where
  "in_range lo hi c = (lo \<le> of_char c \<and> (of_char c :: nat) \<le> hi)"

definition rune_width :: "string \<Rightarrow> nat" where
  "rune_width s =
     (case s of
        [] \<Rightarrow> 0
      | s0 # _ \<Rightarrow>
          (let b = (of_char s0 :: nat) in
           if b < 0x80 then 1
           else if b < 0xC2 \<or> 0xF4 < b then 1
           else
             (let sz = (if b < 0xE0 then 2 else if b < 0xF0 then 3 else (4::nat));
                  lo = (if b = 0xE0 then 0xA0 else if b = 0xF0 then 0x90 else 0x80);
                  hi = (if b = 0xED then 0x9F else if b = 0xF4 then 0x8F else 0xBF)
              in if length s < sz then 1
                 else if \<not> in_range lo hi (s ! 1) then 1
                 else if sz \<le> 2 then 2
                 else if \<not> in_range 0x80 0xBF (s ! 2) then 1
                 else if sz \<le> 3 then 3
                 else if \<not> in_range 0x80 0xBF (s ! 3) then 1
                 else 4)))"

lemma rune_width_pos: "s \<noteq> [] \<Longrightarrow> 0 < rune_width s"
  by (cases s) (simp_all add: rune_width_def Let_def)

function runes :: "string \<Rightarrow> string list" where
  "runes [] = []"
| "runes (c # s) = take (rune_width (c # s)) (c # s) # runes (drop (rune_width (c # s)) (c # s))"
  by pat_completeness auto
termination
  by (relation "measure length") (simp_all add: rune_width_pos)

section \<open>Package templates: version.go\<close>

text \<open>
  The loop of \<open>CompareVersions\<close> walks both lists of segments in step; when one of them
  is used up without a difference, the longer list wins. Comparing the lengths of the
  remaining segments is comparing \<open>len(aParts)\<close> and \<open>len(bParts)\<close>, since the loop
  has dropped as many segments from the one as from the other.
\<close>

fun CompareVersions_loop :: "string list \<Rightarrow> string list \<Rightarrow> bool" where
  "CompareVersions_loop (a # as) (b # bs) =
     (if Atoi a \<noteq> Atoi b then Atoi b < Atoi a else CompareVersions_loop as bs)"
| "CompareVersions_loop as bs = (length bs < length as)"

definition CompareVersions :: "string \<Rightarrow> string \<Rightarrow> bool" where
  "CompareVersions a b =
     CompareVersions_loop (Split (TrimPrefix a ''v'') (CHR ''.''))
                          (Split (TrimPrefix b ''v'') (CHR ''.''))"

text \<open>The segments of a version, as the numbers the comparison reads.\<close>

definition version_key :: "string \<Rightarrow> int list" where
  "version_key a = map Atoi (Split (TrimPrefix a ''v'') (CHR ''.''))"

section \<open>Package parser\<close>

subsection \<open>Results, configuration and the network\<close>

text \<open>A Go \<open>error\<close> is modelled by its message; \<open>nil\<close> is \<open>None\<close>.\<close>

record DeprecationResult =
  Item :: string
  Version :: string
  Error :: "string option"

record JavadocConfig =
  BaseURL :: string
  Version_cfg :: string
  UseCachedData :: bool

text \<open>
  What one request over the network comes to: \<open>http.Get\<close> fails, or reading the body
  fails, or the body arrives. The network is a function from the URL to the outcome.
  Every request has one of these outcomes: a request that never returns (the program sets
  no timeout) is not modelled.
\<close>

datatype http_outcome = GetFailed string | ReadFailed string | Body string

definition GetFullURL :: "JavadocConfig \<Rightarrow> string \<Rightarrow> string" where
  "GetFullURL c path =
     (let path = (if \<not> HasPrefix path ''/'' then ''/'' @ path else path)
      in BaseURL c @ ''/'' @ Version_cfg c @ path)"

definition FetchHTML :: "(string \<Rightarrow> http_outcome) \<Rightarrow> JavadocConfig \<Rightarrow> string \<Rightarrow> string + string" where
  "FetchHTML http c path =
     (let fullURL = GetFullURL c path
      in case http fullURL of
           GetFailed err \<Rightarrow> Inl (''fetch failed for '' @ fullURL @ '': '' @ err)
         | ReadFailed err \<Rightarrow> Inl (''reading body failed for '' @ fullURL @ '': '' @ err)
         | Body body \<Rightarrow> Inr body)"

subsection \<open>The index page: the regular expression of the summary rows\<close>

text \<open>
  Go's \<open>regexp\<close> finds the leftmost match and, among the matches that start there, the
  one a backtracking matcher meets first. The expressions of the program are sequences
  of literals and of negated one-character classes under \<open>*\<close> or \<open>+\<close>, for which that
  search is written out below:
  \<^item> \<open>lit p s\<close> matches the literal \<open>p\<close> at the start of \<open>s\<close> and gives the rest;
  \<^item> a class \<open>[^c]*\<close> followed by a literal that starts with \<open>c\<close> can only take the
    longest run of bytes other than \<open>c\<close> (\<open>takeWhile\<close>, with \<open>dropWhile\<close> for
    what follows): a shorter run would leave a byte other than \<open>c\<close> where the
    literal wants \<open>c\<close>.
\<close>

definition lit :: "string \<Rightarrow> string \<Rightarrow> string option" where
  "lit p s = (if HasPrefix s p then Some (drop (length p) s) else None)"

definition dquote :: char where
  "dquote = CHR 0x22"

text \<open>
  The tail \<open>([^<]*)(?:<wbr>)?([^<]+)</a></div>\<close> of the canonical expression. The
  first group is greedy and takes the whole run up to the next \<open><\<close>. With a
  \<open><wbr>\<close> there, the second group is the run after it. Without one the second group
  finds nothing left, the first group gives back its last rune, which becomes the second
  group (giving back more changes nothing: the closing tags are still required at the
  same place).
\<close>

definition label_wrapped :: "string \<Rightarrow> string \<Rightarrow> string \<Rightarrow> ((string \<times> string \<times> string) \<times> string) option" where
  "label_wrapped href run s =
     (case lit ''<wbr>'' s of
        None \<Rightarrow> None
      | Some s' \<Rightarrow>
          (if takeWhile (\<lambda>c. c \<noteq> CHR ''<'') s' = [] then None
           else (case lit ''</a></div>'' (dropWhile (\<lambda>c. c \<noteq> CHR ''<'') s') of
                   None \<Rightarrow> None
                 | Some rest \<Rightarrow> Some ((href, run, takeWhile (\<lambda>c. c \<noteq> CHR ''<'') s'), rest))))"

definition label_plain :: "string \<Rightarrow> string \<Rightarrow> string \<Rightarrow> ((string \<times> string \<times> string) \<times> string) option" where
  "label_plain href run s =
     (if run = [] then None
      else (case lit ''</a></div>'' s of
              None \<Rightarrow> None
            | Some rest \<Rightarrow> Some ((href, concat (butlast (runes run)), last (runes run)), rest)))"

text \<open>
  One match of
  \<open><div class="col-summary-item-name[^"]*"><a href="([^"]+)">([^<]*)(?:<wbr>)?([^<]+)</a></div>\<close>
  at the start of \<open>s\<close>: the three groups and what follows the match.
\<close>

definition item_match :: "string \<Rightarrow> ((string \<times> string \<times> string) \<times> string) option" where
  \<open>item_match s =
     (case lit ''<div class="col-summary-item-name'' s of
        None \<Rightarrow> None
      | Some s1 \<Rightarrow>
     (case lit ''"><a href="'' (dropWhile (\<lambda>c. c \<noteq> dquote) s1) of
        None \<Rightarrow> None
      | Some s2 \<Rightarrow>
     (if takeWhile (\<lambda>c. c \<noteq> dquote) s2 = [] then None
      else
     (case lit ''">'' (dropWhile (\<lambda>c. c \<noteq> dquote) s2) of
        None \<Rightarrow> None
      | Some s3 \<Rightarrow>
     (let href = takeWhile (\<lambda>c. c \<noteq> dquote) s2;
          run = takeWhile (\<lambda>c. c \<noteq> CHR ''<'') s3;
          s4 = dropWhile (\<lambda>c. c \<noteq> CHR ''<'') s3
      in case label_wrapped href run s4 of
           Some m \<Rightarrow> Some m
         | None \<Rightarrow> label_plain href run s4)))))\<close>

text \<open>
  The legacy expression
  \<open><div class="col-summary-item-name[^"]*"><a href="([^"]+)">([^<]+)</a></div>\<close>
  has one group for the label and no soft-wrap marker.
\<close>

definition item_match_legacy :: "string \<Rightarrow> ((string \<times> string) \<times> string) option" where
  \<open>item_match_legacy s =
     (case lit ''<div class="col-summary-item-name'' s of
        None \<Rightarrow> None
      | Some s1 \<Rightarrow>
     (case lit ''"><a href="'' (dropWhile (\<lambda>c. c \<noteq> dquote) s1) of
        None \<Rightarrow> None
      | Some s2 \<Rightarrow>
     (if takeWhile (\<lambda>c. c \<noteq> dquote) s2 = [] then None
      else
     (case lit ''">'' (dropWhile (\<lambda>c. c \<noteq> dquote) s2) of
        None \<Rightarrow> None
      | Some s3 \<Rightarrow>
     (if takeWhile (\<lambda>c. c \<noteq> CHR ''<'') s3 = [] then None
      else
     (case lit ''</a></div>'' (dropWhile (\<lambda>c. c \<noteq> CHR ''<'') s3) of
        None \<Rightarrow> None
      | Some rest \<Rightarrow>
          Some ((takeWhile (\<lambda>c. c \<noteq> dquote) s2, takeWhile (\<lambda>c. c \<noteq> CHR ''<'') s3), rest)))))))\<close>

lemma lit_Some_iff: "lit p s = Some r \<longleftrightarrow> s = p @ r"
proof
  assume "lit p s = Some r"
  then have "take (length p) s = p" and "r = drop (length p) s"
    by (auto simp: lit_def HasPrefix_def split: if_splits)
  then show "s = p @ r"
    by (metis append_take_drop_id)
next
  assume "s = p @ r"
  then show "lit p s = Some r"
    by (simp add: lit_def HasPrefix_def)
qed

lemma lit_le: "lit p s = Some r \<Longrightarrow> length r \<le> length s"
  by (simp add: lit_Some_iff)

lemma lit_less: "lit (c # p) s = Some r \<Longrightarrow> length r < length s"
  by (simp add: lit_Some_iff)

lemma label_wrapped_le: "label_wrapped h run s = Some (m, rest) \<Longrightarrow> length rest \<le> length s"
  unfolding label_wrapped_def
  by (auto split: option.splits if_splits dest!: lit_le
      intro: le_trans [OF _ le_trans [OF length_dropWhile_le]])

lemma label_plain_le: "label_plain h run s = Some (m, rest) \<Longrightarrow> length rest \<le> length s"
  unfolding label_plain_def
  by (auto split: option.splits if_splits dest!: lit_le)

lemma label_le:
  "(case label_wrapped h run s of Some m \<Rightarrow> Some m | None \<Rightarrow> label_plain h run s) = Some (m, rest)
   \<Longrightarrow> length rest \<le> length s"
  by (auto split: option.splits dest: label_plain_le label_wrapped_le)

lemma item_match_shorter: "item_match s = Some (m, rest) \<Longrightarrow> length rest < length s"
proof -
  assume a: "item_match s = Some (m, rest)"
  from a obtain s1 where s1: "lit ''<div class=\"col-summary-item-name'' s = Some s1"
    unfolding item_match_def by (cases "lit ''<div class=\"col-summary-item-name'' s") auto
  from a s1 obtain s2 where s2: "lit ''\"><a href=\"'' (dropWhile (\<lambda>c. c \<noteq> dquote) s1) = Some s2"
    unfolding item_match_def by (cases "lit ''\"><a href=\"'' (dropWhile (\<lambda>c. c \<noteq> dquote) s1)") auto
  from a s1 s2 obtain s3 where s3: "lit ''\">'' (dropWhile (\<lambda>c. c \<noteq> dquote) s2) = Some s3"
    unfolding item_match_def
    by (cases "lit ''\">'' (dropWhile (\<lambda>c. c \<noteq> dquote) s2)") (auto split: if_splits)
  from a s1 s2 s3 have "length rest \<le> length (dropWhile (\<lambda>c. c \<noteq> CHR ''<'') s3)"
    unfolding item_match_def
    by (auto simp: Let_def split: if_splits intro!: label_le)
  also have "\<dots> \<le> length s3" by (rule length_dropWhile_le)
  also from s3 have "\<dots> \<le> length (dropWhile (\<lambda>c. c \<noteq> dquote) s2)" by (rule lit_le)
  also have "\<dots> \<le> length s2" by (rule length_dropWhile_le)
  also from s2 have "\<dots> \<le> length (dropWhile (\<lambda>c. c \<noteq> dquote) s1)" by (rule lit_le)
  also have "\<dots> \<le> length s1" by (rule length_dropWhile_le)
  also from s1 have "\<dots> < length s" by (rule lit_less)
  finally show ?thesis .
qed

lemma item_match_legacy_shorter:
  "item_match_legacy s = Some (m, rest) \<Longrightarrow> length rest < length s"
proof -
  assume a: "item_match_legacy s = Some (m, rest)"
  from a obtain s1 where s1: "lit ''<div class=\"col-summary-item-name'' s = Some s1"
    unfolding item_match_legacy_def
    by (cases "lit ''<div class=\"col-summary-item-name'' s") auto
  from a s1 obtain s2 where
    s2: "lit ''\"><a href=\"'' (dropWhile (\<lambda>c. c \<noteq> dquote) s1) = Some s2"
    unfolding item_match_legacy_def
    by (cases "lit ''\"><a href=\"'' (dropWhile (\<lambda>c. c \<noteq> dquote) s1)") auto
  from a s1 s2 obtain s3 where s3: "lit ''\">'' (dropWhile (\<lambda>c. c \<noteq> dquote) s2) = Some s3"
    unfolding item_match_legacy_def
    by (cases "lit ''\">'' (dropWhile (\<lambda>c. c \<noteq> dquote) s2)") (auto split: if_splits)
  from a s1 s2 s3 have "lit ''</a></div>'' (dropWhile (\<lambda>c. c \<noteq> CHR ''<'') s3) = Some rest"
    unfolding item_match_legacy_def
    by (auto split: if_splits option.splits)
  then have "length rest \<le> length (dropWhile (\<lambda>c. c \<noteq> CHR ''<'') s3)"
    by (rule lit_le)
  also have "\<dots> \<le> length s3" by (rule length_dropWhile_le)
  also from s3 have "\<dots> \<le> length (dropWhile (\<lambda>c. c \<noteq> dquote) s2)" by (rule lit_le)
  also have "\<dots> \<le> length s2" by (rule length_dropWhile_le)
  also from s2 have "\<dots> \<le> length (dropWhile (\<lambda>c. c \<noteq> dquote) s1)" by (rule lit_le)
  also have "\<dots> \<le> length s1" by (rule length_dropWhile_le)
  also from s1 have "\<dots> < length s" by (rule lit_less)
  finally show ?thesis .
qed

text \<open>
  \<open>FindAllStringSubmatch(listHtml, -1)\<close>: the matches from left to right; after a
  match the search goes on behind it, after a failure one byte further.
\<close>

function FindAllStringSubmatch :: "string \<Rightarrow> (string \<times> string \<times> string) list" where
  "FindAllStringSubmatch s =
     (case item_match s of
        Some (m, rest) \<Rightarrow> m # FindAllStringSubmatch rest
      | None \<Rightarrow> (case s of [] \<Rightarrow> [] | _ # t \<Rightarrow> FindAllStringSubmatch t))"
  by pat_completeness auto
termination
  by (relation "measure length") (auto dest: item_match_shorter)

function FindAllStringSubmatch_legacy :: "string \<Rightarrow> (string \<times> string) list" where
  "FindAllStringSubmatch_legacy s =
     (case item_match_legacy s of
        Some (m, rest) \<Rightarrow> m # FindAllStringSubmatch_legacy rest
      | None \<Rightarrow> (case s of [] \<Rightarrow> [] | _ # t \<Rightarrow> FindAllStringSubmatch_legacy t))"
  by pat_completeness auto
termination
  by (relation "measure length") (auto dest: item_match_legacy_shorter)

declare FindAllStringSubmatch.simps [simp del] FindAllStringSubmatch_legacy.simps [simp del]

text \<open>
  The index entry that the dispatcher reads from a match: the link \<open>match[1]\<close> and
  the label \<open>match[2] + match[3]\<close>.
\<close>

definition entry :: "string \<times> string \<times> string \<Rightarrow> string \<times> string" where
  "entry m = (case m of (link, pre, post) \<Rightarrow> (link, pre @ post))"

subsection \<open>The detail page, legacy variant: two regular expressions\<close>

text \<open>
  A greedy class \<open>[^c]*\<close> before a literal that does not start with \<open>c\<close> has to be
  backtracked: \<open>backtrack f k s\<close> lets the class take \<open>k\<close> bytes, then \<open>k - 1\<close>,
  down to none, and answers with the first success of \<open>f\<close> on what the class leaves.
\<close>

fun backtrack :: "(string \<Rightarrow> 'a option) \<Rightarrow> nat \<Rightarrow> string \<Rightarrow> 'a option" where
  "backtrack f 0 s = f s"
| "backtrack f (Suc k) s =
     (case f (drop (Suc k) s) of Some r \<Rightarrow> Some r | None \<Rightarrow> backtrack f k s)"

text \<open>\<open>FindStringSubmatch\<close>: the match at the leftmost position that has one.\<close>

fun FindStringSubmatch :: "(string \<Rightarrow> 'a option) \<Rightarrow> string \<Rightarrow> 'a option" where
  "FindStringSubmatch f [] = f []"
| "FindStringSubmatch f (c # cs) =
     (case f (c # cs) of Some r \<Rightarrow> Some r | None \<Rightarrow> FindStringSubmatch f cs)"

text \<open>\<open>since="([^"]+)"\<close> at the start of a string: the group.\<close>

definition since_value :: "string \<Rightarrow> string option" where
  \<open>since_value s =
     (case lit ''since="'' s of
        None \<Rightarrow> None
      | Some s' \<Rightarrow>
          (if takeWhile (\<lambda>c. c \<noteq> dquote) s' = [] \<or> dropWhile (\<lambda>c. c \<noteq> dquote) s' = []
           then None else Some (takeWhile (\<lambda>c. c \<noteq> dquote) s')))\<close>

text \<open>\<open>@Deprecated\([^)]*since="([^"]+)"\<close> at the start of a string.\<close>

definition deprecated_match :: "string \<Rightarrow> string option" where
  "deprecated_match s =
     (case lit ''@Deprecated('' s of
        None \<Rightarrow> None
      | Some s' \<Rightarrow> backtrack since_value (length (takeWhile (\<lambda>c. c \<noteq> CHR '')'') s')) s')"

text \<open>The dot of a regular expression takes one rune other than the newline.\<close>

definition any_char :: "string \<Rightarrow> string option" where
  "any_char s =
     (case s of
        [] \<Rightarrow> None
      | c # _ \<Rightarrow> (if c = CHR 0x0A then None else Some (drop (rune_width s) s)))"

text \<open>\<open>Deprecated.html#since[^"]*"[^>]*>[^<]*</a>="([^"]+)"\<close> at the start of a string.\<close>

definition fallback_tail :: "string \<Rightarrow> string option" where
  \<open>fallback_tail s =
     (case lit ''Deprecated'' s of
        None \<Rightarrow> None
      | Some s1 \<Rightarrow>
     (case any_char s1 of
        None \<Rightarrow> None
      | Some s2 \<Rightarrow>
     (case lit ''html#since'' s2 of
        None \<Rightarrow> None
      | Some s3 \<Rightarrow>
     (case lit ''"'' (dropWhile (\<lambda>c. c \<noteq> dquote) s3) of
        None \<Rightarrow> None
      | Some s4 \<Rightarrow>
     (case lit ''>'' (dropWhile (\<lambda>c. c \<noteq> CHR ''>'') s4) of
        None \<Rightarrow> None
      | Some s5 \<Rightarrow>
     (case lit ''</a>="'' (dropWhile (\<lambda>c. c \<noteq> CHR ''<'') s5) of
        None \<Rightarrow> None
      | Some s6 \<Rightarrow>
          (if takeWhile (\<lambda>c. c \<noteq> dquote) s6 = [] \<or> dropWhile (\<lambda>c. c \<noteq> dquote) s6 = []
           then None else Some (takeWhile (\<lambda>c. c \<noteq> dquote) s6))))))))\<close>

text \<open>
  \<open>href="[^"]*Deprecated.html#since[^"]*"[^>]*>[^<]*</a>="([^"]+)"\<close> at the start of
  a string.
\<close>

definition fallback_match :: "string \<Rightarrow> string option" where
  \<open>fallback_match s =
     (case lit ''href="'' s of
        None \<Rightarrow> None
      | Some s' \<Rightarrow> backtrack fallback_tail (length (takeWhile (\<lambda>c. c \<noteq> dquote) s')) s')\<close>

definition extractDeprecationVersion :: "string \<Rightarrow> string" where
  "extractDeprecationVersion html =
     (case FindStringSubmatch deprecated_match html of
        Some v \<Rightarrow> v
      | None \<Rightarrow>
          (case FindStringSubmatch fallback_match html of
             Some v \<Rightarrow> v
           | None \<Rightarrow> []))"

definition processDeprecatedItem_legacy ::
  "(string \<Rightarrow> http_outcome) \<Rightarrow> JavadocConfig \<Rightarrow> string \<Rightarrow> string \<Rightarrow> DeprecationResult" where
  "processDeprecatedItem_legacy http c link item =
     (case FetchHTML http c link of
        Inl err \<Rightarrow> \<lparr>Item = item, Version = [], Error = Some err\<rparr>
      | Inr html \<Rightarrow>
          (let version = extractDeprecationVersion html
           in if version = [] then \<lparr>Item = item, Version = ''Unknown'', Error = None\<rparr>
              else \<lparr>Item = item, Version = version, Error = None\<rparr>))"

subsection \<open>The detail page, canonical variant: a walk over the node tree\<close>

text \<open>
  The tree of \<open>golang.org/x/net/html\<close>: a node has a type, its data (the tag of an
  element, the text of a text node), its attributes and its children, which the program
  visits from \<open>FirstChild\<close> along \<open>NextSibling\<close>. The parser itself is not part of the
  program; it is a parameter \<open>parse\<close> that gives the root or an error.
\<close>

datatype NodeType = ErrorNode | TextNode | DocumentNode | ElementNode | CommentNode | DoctypeNode | RawNode

datatype Attribute = Attribute (Namespace: string) (Key: string) (Val: string)

datatype Node = Node (Type: NodeType) (Data: string) (Attr: "Attribute list") (Children: "Node list")

text \<open>
  \<open>findElementNodeByID\<close>: the closure \<open>traverse\<close> assigns \<open>found\<close> at a matching section
  and returns from that call only, so the walk goes on with the siblings and a later
  match overwrites an earlier one; the children of a match are not visited.
\<close>

fun traverse :: "string \<Rightarrow> Node \<Rightarrow> Node option \<Rightarrow> Node option"
  and traverse_children :: "string \<Rightarrow> Node list \<Rightarrow> Node option \<Rightarrow> Node option" where
  "traverse id' (Node t d as cs) found =
     (if t = ElementNode \<and> d = ''section'' \<and> list_ex (\<lambda>attr. Key attr = ''id'' \<and> Val attr = id') as
      then Some (Node t d as cs)
      else traverse_children id' cs found)"
| "traverse_children id' [] found = found"
| "traverse_children id' (c # cs) found = traverse_children id' cs (traverse id' c found)"

definition findElementNodeByID :: "Node \<Rightarrow> string \<Rightarrow> Node option" where
  "findElementNodeByID n id' = traverse id' n None"

fun findAnnotationsSpan :: "Node \<Rightarrow> Node option"
  and findAnnotationsSpan_children :: "Node list \<Rightarrow> Node option" where
  "findAnnotationsSpan (Node t d as cs) =
     (if t = ElementNode \<and> d = ''span'' \<and>
         list_ex (\<lambda>attr. Key attr = ''class'' \<and> Val attr = ''annotations'') as
      then Some (Node t d as cs)
      else findAnnotationsSpan_children cs)"
| "findAnnotationsSpan_children [] = None"
| "findAnnotationsSpan_children (c # cs) =
     (case findAnnotationsSpan c of
        Some result \<Rightarrow> Some result
      | None \<Rightarrow> findAnnotationsSpan_children cs)"

text \<open>
  The loop over the children of the annotations span. The \<open>continue\<close> in the source
  stands in the loop over the attributes, so after a since link the same child is still
  tested for being a text node (which an element is not).
\<close>

definition is_since_link :: "Node \<Rightarrow> bool" where
  "is_since_link c =
     (Type c = ElementNode \<and> Data c = ''a'' \<and>
      list_ex (\<lambda>attr. Key attr = ''href'' \<and> Contains (Val attr) ''#since()'') (Attr c))"

definition version_of_text :: "string \<Rightarrow> string" where
  \<open>version_of_text text =
     (let version = Trim (Split text (CHR ''='') ! 1) ''"'';
          version = TrimSuffix version ''")'';
          version = TrimSuffix version ''",''
      in version)\<close>

fun since_loop :: "bool \<Rightarrow> Node list \<Rightarrow> string" where
  "since_loop foundSince [] = []"
| "since_loop foundSince (c # cs) =
     (let foundSince = (foundSince \<or> is_since_link c)
      in if foundSince \<and> Type c = TextNode \<and> Contains (TrimSpace (Data c)) ''=''
         then version_of_text (TrimSpace (Data c))
         else since_loop foundSince cs)"

definition extractDeprecatedSinceFromNode :: "Node \<Rightarrow> string" where
  "extractDeprecatedSinceFromNode n =
     (case findAnnotationsSpan n of
        None \<Rightarrow> []
      | Some annotationsSpan \<Rightarrow> since_loop False (Children annotationsSpan))"

definition extractDeprecatedSince :: "(string \<Rightarrow> string + Node) \<Rightarrow> string \<Rightarrow> string \<Rightarrow> string" where
  "extractDeprecatedSince parse fullHTML elementID =
     (let itemName = drop (nat (LastIndex elementID (CHR ''.'') + 1)) elementID
      in case parse fullHTML of
           Inl err \<Rightarrow> []
         | Inr doc \<Rightarrow>
             (case findElementNodeByID doc itemName of
                None \<Rightarrow> []
              | Some elementNode \<Rightarrow> extractDeprecatedSinceFromNode elementNode))"

definition processDeprecatedItem ::
  "(string \<Rightarrow> string + Node) \<Rightarrow> (string \<Rightarrow> http_outcome) \<Rightarrow> JavadocConfig \<Rightarrow> string \<Rightarrow> string
   \<Rightarrow> DeprecationResult" where
  "processDeprecatedItem parse http c link item =
     (case FetchHTML http c link of
        Inl err \<Rightarrow> \<lparr>Item = item, Version = [], Error = Some err\<rparr>
      | Inr fetchedHTML \<Rightarrow>
          (let version = extractDeprecatedSince parse fetchedHTML item
           in if version = [] then \<lparr>Item = item, Version = ''Unknown'', Error = None\<rparr>
              else \<lparr>Item = item, Version = version, Error = None\<rparr>))"

subsection \<open>The dispatcher\<close>

text \<open>
  The body of the goroutine of worker \<open>workerID\<close>: it processes the matches from
  \<open>start\<close> up to \<open>end\<close> in order and sends each result. The channel has room for
  every result, so no send waits. \<open>process j m\<close> is what processing the match \<open>m\<close> at
  index \<open>j\<close> gives.
\<close>

definition worker :: "(nat \<Rightarrow> 'm \<Rightarrow> 'r) \<Rightarrow> 'm list \<Rightarrow> nat \<Rightarrow> nat \<Rightarrow> 'r list" where
  "worker process matches itemsPerWorker workerID =
     (let start = workerID * itemsPerWorker;
          end' = (if length matches < start + itemsPerWorker then length matches
                  else start + itemsPerWorker)
      in map (\<lambda>j. process j (matches ! j)) [start..<end'])"

text \<open>
  The receiving loop reads the channel until it is closed, which happens when every
  worker is done. In which order the results of different workers arrive is up to the
  scheduler: \<open>sched\<close> names, step by step, the worker whose next result arrives (a step
  that names no worker with a result left is skipped), and when \<open>sched\<close> is used up the
  remaining results arrive worker by worker. Every \<open>sched\<close> gives a run, and every
  order in which the results can arrive is the run of some \<open>sched\<close>.
\<close>

fun receive :: "nat list \<Rightarrow> 'r list list \<Rightarrow> 'r list" where
  "receive [] sent = concat sent"
| "receive (w # sched) sent =
     (if w < length sent
      then (case sent ! w of
              [] \<Rightarrow> receive sched sent
            | r # rs \<Rightarrow> r # receive sched (sent[w := rs]))
      else receive sched sent)"

text \<open>
  \<open>ParseDeprecations\<close>, canonical variant (ten workers). \<open>net j\<close> is the network as the
  request for the match at index \<open>j\<close> meets it.
\<close>

definition ParseDeprecations ::
  "(string \<Rightarrow> string + Node) \<Rightarrow> (nat \<Rightarrow> string \<Rightarrow> http_outcome) \<Rightarrow> nat list \<Rightarrow> JavadocConfig
   \<Rightarrow> string \<Rightarrow> DeprecationResult list" where
  "ParseDeprecations parse net sched c listHtml =
     (let matches = FindAllStringSubmatch listHtml;
          numWorkers = 10;
          itemsPerWorker = (length matches + numWorkers - 1) div numWorkers
      in receive sched
           (map (worker (\<lambda>j (href, pre, post). processDeprecatedItem parse (net j) c href (pre @ post))
                   matches itemsPerWorker)
              [0..<numWorkers]))"

text \<open>\<open>ParseDeprecations\<close>, legacy variant (eight workers).\<close>

definition ParseDeprecations_legacy ::
  "(nat \<Rightarrow> string \<Rightarrow> http_outcome) \<Rightarrow> nat list \<Rightarrow> JavadocConfig \<Rightarrow> string
   \<Rightarrow> DeprecationResult list" where
  "ParseDeprecations_legacy net sched c listHtml =
     (let matches = FindAllStringSubmatch_legacy listHtml;
          numWorkers = 8;
          itemsPerWorker = (length matches + numWorkers - 1) div numWorkers
      in receive sched
           (map (worker (\<lambda>j (href, label). processDeprecatedItem_legacy (net j) c href label)
                   matches itemsPerWorker)
              [0..<numWorkers]))"

section \<open>Package cache\<close>

text \<open>
  A \<open>time.Time\<close> is modelled by its instant, in nanoseconds since the Unix epoch.
\<close>

record CacheEntry =
  Version_entry :: string
  Items :: "string list"
  LastUpdated :: int

record Cache =
  Entries :: "CacheEntry list"

text \<open>
  The file system and the JSON codec are outside the program. An error of
  \<open>os.ReadFile\<close> either says that the file does not exist (\<open>os.IsNotExist\<close>) or is
  any other error; \<open>json.Unmarshal\<close> gives the decoded cache or an error.
\<close>

datatype file_error = ErrNotExist | ErrOther string

definition IsNotExist :: "file_error \<Rightarrow> bool" where
  "IsNotExist err = (err = ErrNotExist)"

record world =
  ReadFile :: "string \<Rightarrow> file_error + string"
  WriteFile :: "string \<Rightarrow> string \<Rightarrow> string option"
  Unmarshal :: "string \<Rightarrow> string + Cache"
  MarshalIndent :: "Cache \<Rightarrow> string + string"

datatype cache_error = IOError file_error | DecodeError string

text \<open>\<open>LoadCache\<close> returns a cache and no error (\<open>Inr\<close>) or no cache and an error (\<open>Inl\<close>).\<close>

definition LoadCache :: "world \<Rightarrow> string \<Rightarrow> cache_error + Cache" where
  "LoadCache w path =
     (case ReadFile w path of
        Inl err \<Rightarrow> (if IsNotExist err then Inr \<lparr>Entries = []\<rparr> else Inl (IOError err))
      | Inr data \<Rightarrow>
          (case Unmarshal w data of
             Inl err \<Rightarrow> Inl (DecodeError err)
           | Inr cache \<Rightarrow> Inr cache))"

definition Save :: "world \<Rightarrow> Cache \<Rightarrow> string \<Rightarrow> string option" where
  "Save w c path =
     (case MarshalIndent w c of
        Inl err \<Rightarrow> Some err
      | Inr data \<Rightarrow> WriteFile w path data)"

section \<open>Package main\<close>

subsection \<open>Time\<close>

text \<open>
  A \<open>time.Duration\<close> is a number of nanoseconds in \<open>int64\<close>; \<open>Time.Sub\<close> gives the
  largest or smallest duration when the difference does not fit. \<open>now\<close> is the
  reading of the clock that \<open>time.Since\<close> takes.
\<close>

definition Hour :: int where
  "Hour = 3600 * 1000000000"

definition Sub :: "int \<Rightarrow> int \<Rightarrow> int" where
  "Sub t u =
     (if t - u < - (2 ^ 63) then - (2 ^ 63)
      else if 2 ^ 63 - 1 < t - u then 2 ^ 63 - 1
      else t - u)"

definition isCacheValid :: "int \<Rightarrow> int \<Rightarrow> int \<Rightarrow> bool" where
  "isCacheValid now lastUpdated maxAge = (Sub now lastUpdated < maxAge)"

text \<open>\<open>Time.Unix()\<close>: the seconds since the epoch; \<open>time.Unix(sec, 0)\<close> is its inverse.\<close>

definition Unix :: "int \<Rightarrow> int" where
  "Unix t = t div 1000000000"

definition time_Unix :: "int \<Rightarrow> int" where
  "time_Unix sec = sec * 1000000000"

subsection \<open>The start of \<open>main\<close>: replaying the cache\<close>

text \<open>
  \<open>main\<close> up to its decision between the cache and the network: \<open>Some results\<close> when
  it replays the snapshot and returns, \<open>None\<close> when it goes on to fetch. \<open>loaded\<close> is
  what \<open>cache.LoadCache(cacheFile)\<close> returned.
\<close>

definition cached_results :: "Cache \<Rightarrow> DeprecationResult list" where
  "cached_results loadCache =
     concat (map (\<lambda>entry. map (\<lambda>item. \<lparr>Item = item, Version = Version_entry entry, Error = None\<rparr>)
                             (Items entry))
               (Entries loadCache))"

definition main_replay :: "JavadocConfig \<Rightarrow> cache_error + Cache \<Rightarrow> int \<Rightarrow> DeprecationResult list option" where
  "main_replay config loaded now =
     (if UseCachedData config
      then (case loaded of
              Inl err \<Rightarrow> None
            | Inr loadCache \<Rightarrow>
                (case Entries loadCache of
                   [] \<Rightarrow> None
                 | first # _ \<Rightarrow>
                     (if isCacheValid now (LastUpdated first) (24 * Hour)
                      then Some (cached_results loadCache)
                      else None)))
      else None)"

subsection \<open>The report\<close>

text \<open>
  Modelled from the spec: the types \<open>DeprecatedItem\<close>, \<open>ClassGroup\<close>, \<open>VersionGroup\<close>
  and \<open>Report\<close> of package \<open>templates\<close> are declared outside the sources at hand; the
  records below have the fields that \<open>generateReport\<close> fills (the report is "an
  ordered sequence of VersionGroup, ClassGroup, Item records").
\<close>

record DeprecatedItem =
  FullPath :: string
  Name :: string

record ClassGroup =
  ClassName :: string
  Items_class :: "DeprecatedItem list"

record VersionGroup =
  Version_group :: string
  Classes :: "ClassGroup list"

record Report =
  Groups :: "VersionGroup list"
  LastUpdated_report :: int

definition getClassPath :: "string \<Rightarrow> string" where
  "getClassPath fullPath =
     (let parts = Split fullPath (CHR ''.'')
      in if 1 < length parts then Join (take (length parts - 1) parts) ''.'' else fullPath)"

text \<open>
  A Go map is modelled by the list of its entries, one per key. \<open>append_at k v m\<close> is
  \<open>m[k] = append(m[k], v)\<close>; looking up a key that the map does not have gives the
  empty map, as in Go.
\<close>

fun append_at :: "'k \<Rightarrow> 'v \<Rightarrow> ('k \<times> 'v list) list \<Rightarrow> ('k \<times> 'v list) list" where
  "append_at k v [] = [(k, [v])]"
| "append_at k v ((k', vs) # m) =
     (if k = k' then (k', vs @ [v]) # m else (k', vs) # append_at k v m)"

text \<open>\<open>versionGroups[version][className] = append(versionGroups[version][className], item)\<close>\<close>

fun append_in :: "'k \<Rightarrow> 'c \<Rightarrow> 'v \<Rightarrow> ('k \<times> ('c \<times> 'v list) list) list \<Rightarrow> ('k \<times> ('c \<times> 'v list) list) list" where
  "append_in k c v [] = [(k, [(c, [v])])]"
| "append_in k c v ((k', cm) # m) =
     (if k = k' then (k', append_at c v cm) # m else (k', cm) # append_in k c v m)"

text \<open>
  The order in which \<open>range\<close> visits a map is not defined and differs from run to run.
  \<open>range_order seed m\<close> is one such order: each number of the seed picks the next
  entry among the remaining ones. Every seed gives an order, and every order of the
  entries is that of some seed.
\<close>

fun range_order :: "nat list \<Rightarrow> 'a list \<Rightarrow> 'a list" where
  "range_order seed [] = []"
| "range_order [] (x # xs) = x # xs"
| "range_order (k # seed) (x # xs) =
     (let i = k mod length (x # xs)
      in (x # xs) ! i # range_order seed (take i (x # xs) @ drop (Suc i) (x # xs)))"

text \<open>
  \<open>sort.Slice(xs, less)\<close>, as the insertion sort that the package runs on short
  slices: each element moves towards the front while it is \<open>less\<close> than the element
  before it. (On longer slices the package sorts by other means and may order
  elements that \<open>less\<close> does not tell apart differently; since the input here comes in
  the arbitrary order of a map, those orders are covered as well.)
\<close>

definition sort_insert :: "('a \<Rightarrow> 'a \<Rightarrow> bool) \<Rightarrow> 'a list \<Rightarrow> 'a \<Rightarrow> 'a list" where
  "sort_insert lessf xs x =
     rev (dropWhile (lessf x) (rev xs)) @ x # rev (takeWhile (lessf x) (rev xs))"

definition sort_Slice :: "('a \<Rightarrow> 'a \<Rightarrow> bool) \<Rightarrow> 'a list \<Rightarrow> 'a list" where
  "sort_Slice lessf xs = foldl (sort_insert lessf) [] xs"

text \<open>The three places where \<open>generateReport\<close> ranges over a map.\<close>

record map_orders =
  versions_order :: "nat list"
  classes_order :: "string \<Rightarrow> nat list"
  unknown_order :: "nat list"

definition item_of :: "DeprecationResult \<Rightarrow> DeprecatedItem" where
  "item_of result = \<lparr>FullPath = Item result, Name = Item result\<rparr>"

text \<open>
  \<open>generateReport\<close> of \<open>cmd/main.go\<close>, up to the report it hands to
  \<open>templates.ReportPage\<close>. The first loop fills the two maps.
\<close>

fun group_results ::
  "DeprecationResult list \<Rightarrow>
   (string \<times> (string \<times> DeprecatedItem list) list) list \<times> (string \<times> DeprecatedItem list) list \<Rightarrow>
   (string \<times> (string \<times> DeprecatedItem list) list) list \<times> (string \<times> DeprecatedItem list) list" where
  "group_results [] (versionGroups, unknownVersionItems) = (versionGroups, unknownVersionItems)"
| "group_results (result # results) (versionGroups, unknownVersionItems) =
     (if Error result \<noteq> None
      then group_results results
             (versionGroups,
              append_at (getClassPath (Item result)) (item_of result) unknownVersionItems)
      else group_results results
             (append_in (Version result) (getClassPath (Item result)) (item_of result) versionGroups,
              unknownVersionItems))"

definition class_group :: "string \<times> DeprecatedItem list \<Rightarrow> ClassGroup" where
  "class_group e = \<lparr>ClassName = fst e, Items_class = snd e\<rparr>"

definition generateReport ::
  "map_orders \<Rightarrow> int \<Rightarrow> DeprecationResult list \<Rightarrow> int option \<Rightarrow> Report" where
  "generateReport ord now results cachedTime =
     (let (versionGroups, unknownVersionItems) = group_results results ([], []);
          versions = sort_Slice CompareVersions
                       (range_order (versions_order ord) (map fst versionGroups));
          groups = map (\<lambda>version.
                     \<lparr>Version_group = version,
                      Classes = map class_group
                        (range_order (classes_order ord version)
                           (case map_of versionGroups version of None \<Rightarrow> [] | Some m \<Rightarrow> m))\<rparr>)
                     versions;
          groups = (if 0 < length unknownVersionItems
                    then groups @
                      [\<lparr>Version_group = ''Unknown Version'',
                        Classes = map class_group
                          (range_order (unknown_order ord) unknownVersionItems)\<rparr>]
                    else groups);
          lastUpdated = (case cachedTime of None \<Rightarrow> Unix now | Some t \<Rightarrow> Unix t)
      in \<lparr>Groups = groups, LastUpdated_report = lastUpdated\<rparr>)"

text \<open>
  \<open>generateReport\<close> of the variant that saves the cache. Failed results go to one flat
  list; the class groups of each version are sorted by name. The result of
  \<open>cache.LoadCache("deprecations.json")\<close> is used without a look at its error, so when
  that load fails the assignment to \<open>reportCache.Entries\<close> dereferences \<open>nil\<close>; when
  saving fails the function returns that error before it builds the report.
\<close>

fun group_results_saving ::
  "DeprecationResult list \<Rightarrow>
   (string \<times> (string \<times> DeprecatedItem list) list) list \<times> DeprecatedItem list \<Rightarrow>
   (string \<times> (string \<times> DeprecatedItem list) list) list \<times> DeprecatedItem list" where
  "group_results_saving [] (versionGroups, unknownVersionItems) = (versionGroups, unknownVersionItems)"
| "group_results_saving (result # results) (versionGroups, unknownVersionItems) =
     (if Error result \<noteq> None
      then group_results_saving results (versionGroups, unknownVersionItems @ [item_of result])
      else group_results_saving results
             (append_in (Version result) (getClassPath (Item result)) (item_of result) versionGroups,
              unknownVersionItems))"

datatype report_outcome = NilDereference | SaveFailed string | Handed Report Cache

definition report_groups_saving :: "map_orders \<Rightarrow> DeprecationResult list \<Rightarrow> VersionGroup list" where
  "report_groups_saving ord results =
     (let (versionGroups, unknownVersionItems) = group_results_saving results ([], []);
          versions = sort_Slice CompareVersions
                       (range_order (versions_order ord) (map fst versionGroups));
          groups = map (\<lambda>version.
                     \<lparr>Version_group = version,
                      Classes = sort_Slice (\<lambda>a b. ClassName a < ClassName b)
                        (map class_group
                           (range_order (classes_order ord version)
                              (case map_of versionGroups version of None \<Rightarrow> [] | Some m \<Rightarrow> m)))\<rparr>)
                     versions
      in if 0 < length unknownVersionItems
         then groups @
           [\<lparr>Version_group = ''Unknown Version'',
             Classes = [\<lparr>ClassName = ''Unknown Class'', Items_class = unknownVersionItems\<rparr>]\<rparr>]
         else groups)"

definition generateReport_saving ::
  "world \<Rightarrow> map_orders \<Rightarrow> int \<Rightarrow> DeprecationResult list \<Rightarrow> int option \<Rightarrow> report_outcome" where
  "generateReport_saving w ord now results cachedTime =
     (let groups = report_groups_saving ord results;
          lastUpdated = (case cachedTime of None \<Rightarrow> Unix now | Some t \<Rightarrow> Unix t)
      in case LoadCache w ''deprecations.json'' of
           Inl err \<Rightarrow> NilDereference
         | Inr reportCache \<Rightarrow>
             (let reportCache = reportCache\<lparr>Entries :=
                    map (\<lambda>group.
                           \<lparr>Version_entry = Version_group group,
                            Items = concat (map (\<lambda>classGroup. map FullPath (Items_class classGroup))
                                             (Classes group)),
                            LastUpdated = time_Unix lastUpdated\<rparr>) groups\<rparr>
              in case Save w reportCache ''deprecations.json'' of
                   Some err \<Rightarrow> SaveFailed err
                 | None \<Rightarrow> Handed \<lparr>Groups = groups, LastUpdated_report = lastUpdated\<rparr> reportCache))"

section \<open>The inputs that the specification speaks of\<close>

subsection \<open>Index markup with well-formed summary rows\<close>

text \<open>
  A summary row is an anchor inside a cell of class \<open>col-summary-item-name\<close> (the class
  attribute may go on); its label may be split by one soft-wrap marker. A row is
  well formed when the attribute values hold no quote, the link is not empty, and the
  label is text (no \<open><\<close>) whose part after the split is not empty. The index markup is a
  sequence of rows, each after a gap, and a tail; gaps and tail are any text in which no
  summary cell opens.
\<close>

record summary_row =
  row_class :: string
  row_href :: string
  row_pre :: string
  row_wrapped :: bool
  row_post :: string

definition row_markup :: "summary_row \<Rightarrow> string" where
  \<open>row_markup r =
     ''<div class="col-summary-item-name'' @ row_class r @ ''"><a href="'' @ row_href r @ ''">'' @
     row_pre r @ (if row_wrapped r then ''<wbr>'' else []) @ row_post r @ ''</a></div>''\<close>

definition well_formed_row :: "summary_row \<Rightarrow> bool" where
  "well_formed_row r =
     (dquote \<notin> set (row_class r) \<and> row_href r \<noteq> [] \<and> dquote \<notin> set (row_href r) \<and>
      CHR ''<'' \<notin> set (row_pre r) \<and> CHR ''<'' \<notin> set (row_post r) \<and> row_post r \<noteq> [])"

definition filler :: "string \<Rightarrow> bool" where
  \<open>filler s = (\<not> Contains s ''<div class="col-summary-item-name'')\<close>

fun index_markup :: "(string \<times> summary_row) list \<Rightarrow> string \<Rightarrow> string" where
  "index_markup [] tail = tail"
| "index_markup ((gap, r) # rows) tail = gap @ row_markup r @ index_markup rows tail"

text \<open>Two rows in a list, the label of the second split by a soft-wrap marker.\<close>

definition wrapped_index :: string where
  \<open>wrapped_index = ''<ul><div class="col-summary-item-name even-row-color"><a href="a/B.html#m()">B.m</a></div> <div class="col-summary-item-name"><a href="org/bukkit/Foo.html">org.bukkit.<wbr>Foo</a></div></ul>''\<close>

subsection \<open>Detail markup\<close>

text \<open>
  The local name of a symbol is the last of its segments between dots. \<open>nodes\<close> lists
  a tree in document order. A qualifying pair among the children of the annotations
  span is a since link with a text node holding \<open>=\<close> somewhere after it.
\<close>

definition local_name :: "string \<Rightarrow> string" where
  "local_name symbol = last (Split symbol (CHR ''.''))"

fun nodes :: "Node \<Rightarrow> Node list" where
  "nodes (Node t d as cs) = Node t d as cs # concat (map nodes cs)"

definition is_section :: "string \<Rightarrow> Node \<Rightarrow> bool" where
  "is_section name n =
     (Type n = ElementNode \<and> Data n = ''section'' \<and>
      (\<exists>attr \<in> set (Attr n). Key attr = ''id'' \<and> Val attr = name))"

definition is_annotations :: "Node \<Rightarrow> bool" where
  "is_annotations n =
     (Type n = ElementNode \<and> Data n = ''span'' \<and>
      (\<exists>attr \<in> set (Attr n). Key attr = ''class'' \<and> Val attr = ''annotations''))"

definition is_version_text :: "Node \<Rightarrow> bool" where
  "is_version_text c = (Type c = TextNode \<and> CHR ''='' \<in> set (Data c))"

fun qualifying :: "Node list \<Rightarrow> bool" where
  "qualifying [] = False"
| "qualifying (c # cs) = ((is_since_link c \<and> list_ex is_version_text cs) \<or> qualifying cs)"

text \<open>
  The sections with a given \<open>id\<close> lie apart when none of them is inside another one.
  In a well-formed page an \<open>id\<close> occurs once, and then they do.
\<close>

definition sections_apart :: "string \<Rightarrow> Node \<Rightarrow> bool" where
  "sections_apart name n \<longleftrightarrow>
     (\<forall>s \<in> set (nodes n). is_section name s \<longrightarrow>
        (\<forall>m \<in> set (concat (map nodes (Children s))). \<not> is_section name m))"

text \<open>
  A since hyperlink is an anchor one of whose \<open>href\<close> attributes refers to \<open>#since()\<close>.
  The text that carries the version is a key without \<open>=\<close> (\<open>since\<close> in the scenario),
  the sign \<open>=\<close>, the version in quotes and the closing of the annotation: a parenthesis,
  or a comma when another element of the annotation follows.
\<close>

definition since_hyperlink :: "Node \<Rightarrow> bool" where
  "since_hyperlink c =
     (Type c = ElementNode \<and> Data c = ''a'' \<and>
      (\<exists>attr \<in> set (Attr c). Key attr = ''href'' \<and> Contains (Val attr) ''#since()''))"

definition since_text :: "string \<Rightarrow> string \<Rightarrow> string \<Rightarrow> string" where
  \<open>since_text key v closing = key @ ''="'' @ v @ ''"'' @ closing\<close>

text \<open>
  The detail page of the end-to-end scenario, for the symbol \<open>B.m\<close>. Before the section
  of \<open>m\<close> stands the section of another member, deprecated since another version. The
  annotation of \<open>m\<close> has a second element, \<open>forRemoval\<close>, before \<open>since\<close>, and the text
  with the version ends the line.
\<close>

definition member_section :: "string \<Rightarrow> Node list \<Rightarrow> Node" where
  \<open>member_section name annotation =
     Node ElementNode ''section'' [Attribute [] ''class'' ''detail'', Attribute [] ''id'' name]
       [Node ElementNode ''h3'' [] [Node TextNode name [] []],
        Node ElementNode ''div'' [Attribute [] ''class'' ''member-signature'']
          [Node ElementNode ''span'' [Attribute [] ''class'' ''annotations'']
             (Node ElementNode ''a'' [Attribute [] ''href'' ''../java/lang/Deprecated.html'']
                [Node TextNode ''@Deprecated'' [] []]
              # Node TextNode ''('' [] []
              # annotation),
           Node ElementNode ''span'' [Attribute [] ''class'' ''modifiers'']
             [Node TextNode ''public void'' [] []]]]\<close>

definition since_link :: Node where
  \<open>since_link =
     Node ElementNode ''a'' [Attribute [] ''href'' ''../java/lang/Deprecated.html#since()'']
       [Node TextNode ''since'' [] []]\<close>

definition detail_page :: Node where
  \<open>detail_page =
     Node DocumentNode [] []
       [Node ElementNode ''html'' []
          [Node ElementNode ''head'' [] [],
           Node ElementNode ''body'' []
             [member_section ''k''
                [since_link, Node TextNode (''since="1.13")'' @ [CHR 0x0A]) [] []],
              member_section ''m''
                [Node ElementNode ''a''
                   [Attribute [] ''href'' ''../java/lang/Deprecated.html#forRemoval()'']
                   [Node TextNode ''forRemoval'' [] []],
                 Node TextNode ''=true, '' [] [],
                 since_link,
                 Node TextNode (''since="1.20.1")'' @ [CHR 0x0A]) [] []]]]]\<close>

subsection \<open>The scenarios of the dispatcher and of the cache\<close>

text \<open>
  An index of five rows, a network on which the request for the third entry fails and
  every other one gets a page, and the configuration of \<open>main\<close>.
\<close>

definition five_rows :: string where
  \<open>five_rows = ''<div class="col-summary-item-name"><a href="a/A.html#f()">A.f</a></div><div class="col-summary-item-name"><a href="a/B.html#m()">B.m</a></div><div class="col-summary-item-name"><a href="a/C.html">a.<wbr>C</a></div><div class="col-summary-item-name"><a href="a/D.html#x">D.x</a></div><div class="col-summary-item-name"><a href="a/E.html#y">E.y</a></div>''\<close>

definition one_down :: "nat \<Rightarrow> string \<Rightarrow> http_outcome" where
  "one_down j url = (if j = 2 then GetFailed ''connection reset'' else Body ''<html></html>'')"

definition paper :: JavadocConfig where
  "paper = \<lparr>BaseURL = ''https://jd.papermc.io/paper'', Version_cfg = ''1.21.3'', UseCachedData = False\<rparr>"

text \<open>
  A disk on which \<open>missing.json\<close> does not exist, \<open>locked.json\<close> cannot be read and
  every other file holds text that is not JSON.
\<close>

definition disk :: world where
  "disk =
     \<lparr>ReadFile = (\<lambda>path. if path = ''missing.json'' then Inl ErrNotExist
                      else if path = ''locked.json'' then Inl (ErrOther ''permission denied'')
                      else Inr ''{''),
      WriteFile = (\<lambda>path data. None),
      Unmarshal = (\<lambda>data. Inl ''unexpected end of JSON input''),
      MarshalIndent = (\<lambda>cache. Inr ''{}'')\<rparr>"

subsection \<open>The scenario of the report\<close>

text \<open>
  The group of the failed results, as the variant that saves the cache builds it; the map
  orders in which \<open>range\<close> visits every map in the order of insertion; and two results
  of one version whose classes arrive in the order \<open>b.X\<close>, \<open>a.Y\<close>.
\<close>

definition unknown_group :: "DeprecationResult list \<Rightarrow> VersionGroup" where
  "unknown_group results =
     \<lparr>Version_group = ''Unknown Version'',
      Classes = [\<lparr>ClassName = ''Unknown Class'',
                  Items_class = map item_of (filter (\<lambda>r. Error r \<noteq> None) results)\<rparr>]\<rparr>"

definition insertion_order :: map_orders where
  "insertion_order = \<lparr>versions_order = [], classes_order = (\<lambda>version. []), unknown_order = []\<rparr>"

definition two_classes :: "DeprecationResult list" where
  "two_classes =
     [\<lparr>Item = ''b.X.f'', Version = ''1.20.1'', Error = None\<rparr>,
      \<lparr>Item = ''a.Y.g'', Version = ''1.20.1'', Error = None\<rparr>]"

section \<open>Facts about the library functions\<close>

lemma takeWhile_neq_append:
  "c \<notin> set xs \<Longrightarrow> takeWhile (\<lambda>x. x \<noteq> c) (xs @ ys) = xs @ takeWhile (\<lambda>x. x \<noteq> c) ys"
  by (induction xs) auto

lemma dropWhile_neq_append:
  "c \<notin> set xs \<Longrightarrow> dropWhile (\<lambda>x. x \<noteq> c) (xs @ ys) = dropWhile (\<lambda>x. x \<noteq> c) ys"
  by (induction xs) auto

lemma Split_nonempty [simp]: "Split s c \<noteq> []"
  by (induction s) (auto split: list.splits)

lemma Split_no_sep: "c \<notin> set s \<Longrightarrow> Split s c = [s]"
  by (induction s) auto

lemma Split_at_sep: "c \<notin> set a \<Longrightarrow> Split (a @ c # b) c = a # Split b c"
  by (induction a) auto

lemma Split_two: "c \<in> set s \<Longrightarrow> \<exists>p q qs. Split s c = p # q # qs"
proof (induction s)
  case Nil
  then show ?case by simp
next
  case (Cons x s)
  show ?case
  proof (cases "x = c")
    case True
    then show ?thesis
      by (cases "Split s c") (use Split_nonempty [of s c] in auto)
  next
    case False
    with Cons.prems have "c \<in> set s" by simp
    from Cons.IH [OF this] False show ?thesis by auto
  qed
qed

lemma last_Split: "last (Split s c) = rev (takeWhile (\<lambda>x. x \<noteq> c) (rev s))"
proof (induction s)
  case Nil
  show ?case by simp
next
  case (Cons x s)
  show ?case
  proof (cases "c \<in> set s")
    case True
    then have "takeWhile (\<lambda>x. x \<noteq> c) (rev s @ [x]) = takeWhile (\<lambda>x. x \<noteq> c) (rev s)"
      by (intro takeWhile_append1 [where x = c]) simp_all
    moreover from Split_two [OF True] obtain p q qs where "Split s c = p # q # qs"
      by blast
    ultimately show ?thesis
      using Cons by auto
  next
    case False
    then show ?thesis
      by (auto simp: Split_no_sep takeWhile_neq_append)
  qed
qed

lemma takeWhile_neq_shorter: "c \<in> set xs \<Longrightarrow> length (takeWhile (\<lambda>x. x \<noteq> c) xs) < length xs"
  by (induction xs) auto

lemma Contains_single: "Contains s [c] \<longleftrightarrow> c \<in> set s"
  by (induction s) (auto simp: HasPrefix_def)

lemma Contains_append: "HasPrefix ys sub \<Longrightarrow> Contains (xs @ ys) sub"
  by (induction xs) (cases ys; auto simp: HasPrefix_def)+

lemma set_TrimLeftSpace: "set (TrimLeftSpace s) \<subseteq> set s"
proof (induction s rule: TrimLeftSpace.induct)
  case (1 s)
  show ?case
  proof (cases "s \<noteq> [] \<and> 0 < leading_space s")
    case True
    with 1 have "set (TrimLeftSpace (drop (leading_space s) s)) \<subseteq> set (drop (leading_space s) s)"
      by simp
    also have "\<dots> \<subseteq> set s" by (rule set_drop_subset)
    finally show ?thesis using True by (subst TrimLeftSpace.simps) simp
  next
    case False
    then show ?thesis by (subst TrimLeftSpace.simps) auto
  qed
qed

lemma set_TrimRightSpace: "set (TrimRightSpace s) \<subseteq> set s"
proof (induction s rule: TrimRightSpace.induct)
  case (1 s)
  show ?case
  proof (cases "s \<noteq> [] \<and> 0 < trailing_space s")
    case True
    with 1 have "set (TrimRightSpace (take (length s - trailing_space s) s))
                 \<subseteq> set (take (length s - trailing_space s) s)"
      by simp
    also have "\<dots> \<subseteq> set s" by (rule set_take_subset)
    finally show ?thesis using True by (subst TrimRightSpace.simps) simp
  next
    case False
    then show ?thesis by (subst TrimRightSpace.simps) auto
  qed
qed

lemma set_TrimSpace: "set (TrimSpace s) \<subseteq> set s"
  unfolding TrimSpace_def using set_TrimLeftSpace set_TrimRightSpace by blast

lemma leading_space_0: "hd s \<notin> hd ` set space_runes \<Longrightarrow> s \<noteq> [] \<Longrightarrow> leading_space s = 0"
proof -
  assume h: "hd s \<notin> hd ` set space_runes" and ne: "s \<noteq> []"
  have "\<not> HasPrefix s w" if "w \<in> set space_runes" for w
  proof
    assume p: "HasPrefix s w"
    from that have "w \<noteq> []" by (auto simp: space_runes_def)
    with p ne have "hd s = hd w"
      by (cases s; cases w) (auto simp: HasPrefix_def)
    with h that show False by blast
  qed
  then have "filter (\<lambda>w. HasPrefix s w) space_runes = []"
    by (simp add: filter_empty_conv)
  then show ?thesis by (simp add: leading_space_def)
qed

lemma trailing_space_0: "last s \<notin> last ` set space_runes \<Longrightarrow> s \<noteq> [] \<Longrightarrow> trailing_space s = 0"
proof -
  assume h: "last s \<notin> last ` set space_runes" and ne: "s \<noteq> []"
  have "\<not> HasSuffix s w" if "w \<in> set space_runes" for w
  proof
    assume p: "HasSuffix s w"
    from that have w: "w \<noteq> []" by (auto simp: space_runes_def)
    from p have "s = take (length s - length w) s @ w"
      by (metis HasSuffix_def append_take_drop_id)
    with w have "last s = last w"
      by (metis last_appendR)
    with h that show False by blast
  qed
  then have "filter (\<lambda>w. HasSuffix s w) space_runes = []"
    by (simp add: filter_empty_conv)
  then show ?thesis by (simp add: trailing_space_def)
qed

lemma TrimSpace_id:
  "s \<noteq> [] \<Longrightarrow> hd s \<notin> hd ` set space_runes \<Longrightarrow> last s \<notin> last ` set space_runes
   \<Longrightarrow> TrimSpace s = s"
  by (simp add: TrimSpace_def TrimLeftSpace.simps [of s] TrimRightSpace.simps [of s]
      leading_space_0 trailing_space_0)

section \<open>Version comparison\<close>

lemma Nil_less_map: "[] < map f xs \<longleftrightarrow> xs \<noteq> []"
  by (cases xs) simp_all

lemma CompareVersions_loop_less:
  "CompareVersions_loop as bs \<longleftrightarrow> map Atoi bs < map Atoi as"
  by (induction as bs rule: CompareVersions_loop.induct) (auto simp: Nil_less_map)

lemma CompareVersions_key: "CompareVersions a b \<longleftrightarrow> version_key b < version_key a"
  by (simp add: CompareVersions_def version_key_def CompareVersions_loop_less)




section \<open>The index extractor\<close>

lemma concat_runes: "concat (runes s) = s"
  by (induction s rule: runes.induct) simp_all

lemma runes_Nil_iff: "runes s = [] \<longleftrightarrow> s = []"
  by (cases s) simp_all

lemma runes_butlast_last: "s \<noteq> [] \<Longrightarrow> concat (butlast (runes s)) @ last (runes s) = s"
proof -
  assume "s \<noteq> []"
  then have "runes s \<noteq> []" by (simp add: runes_Nil_iff)
  then have "butlast (runes s) @ [last (runes s)] = runes s"
    by (rule append_butlast_last_id)
  then have "concat (butlast (runes s) @ [last (runes s)]) = s"
    by (simp only: concat_runes)
  then show ?thesis by simp
qed

text \<open>A label that ends in a rune of two bytes: the second group is that rune.\<close>

lemma label_plain_two_byte_rune:
  "label_plain h (''Foo'' @ [CHR 0xC3, CHR 0xA9]) ''</a></div>''
   = Some ((h, ''Foo'', [CHR 0xC3, CHR 0xA9]), [])"
  by (simp add: label_plain_def lit_def HasPrefix_def rune_width_def in_range_def)

lemma lit_append [simp]: "lit p (p @ s) = Some s"
  by (simp add: lit_Some_iff)

lemma item_match_row:
  assumes "well_formed_row r"
  shows "item_match (row_markup r @ rest) =
    Some ((row_href r,
           if row_wrapped r then row_pre r else concat (butlast (runes (row_pre r @ row_post r))),
           if row_wrapped r then row_post r else last (runes (row_pre r @ row_post r))), rest)"
proof -
  from assms have q: "CHR 0x22 \<notin> set (row_class r)" "CHR 0x22 \<notin> set (row_href r)"
    and h: "row_href r \<noteq> []" and p: "row_post r \<noteq> []"
    and l: "CHR ''<'' \<notin> set (row_pre r)" "CHR ''<'' \<notin> set (row_post r)"
    by (simp_all add: well_formed_row_def dquote_def)
  show ?thesis
  proof (cases "row_wrapped r")
    case True
    with q h p l show ?thesis
      by (simp add: item_match_def row_markup_def dquote_def takeWhile_neq_append
          dropWhile_neq_append label_wrapped_def lit_def HasPrefix_def)
  next
    case False
    with q h p l show ?thesis
      by (simp add: item_match_def row_markup_def dquote_def takeWhile_neq_append
          dropWhile_neq_append label_wrapped_def label_plain_def lit_def HasPrefix_def Let_def)
  qed
qed

lemma prefix_straddle:
  assumes "u \<noteq> []" and "take (length p) (u @ c # w) = p" and "c \<notin> set (tl p)"
  shows "take (length p) u = p"
proof (cases "length p \<le> length u")
  case True
  with assms(2) show ?thesis by simp
next
  case False
  then have lt: "length u < length p" by simp
  with assms(2) have "p ! length u = (u @ c # w) ! length u"
    by (metis nth_take)
  then have "p ! length u = c" by simp
  moreover from assms(1) lt have "p ! length u \<in> set (tl p)"
    by (cases p; cases u) auto
  ultimately show ?thesis using assms(3) by simp
qed

lemma HasPrefix_straddle:
  assumes "u \<noteq> []"
    and \<open>HasPrefix (u @ CHR ''<'' # w) ''<div class="col-summary-item-name''\<close>
  shows \<open>HasPrefix u ''<div class="col-summary-item-name''\<close>
proof -
  have nin: \<open>CHR ''<'' \<notin> set (tl ''<div class="col-summary-item-name'')\<close>
    by simp
  from assms(2) have
    \<open>take (length ''<div class="col-summary-item-name'') (u @ CHR ''<'' # w)
       = ''<div class="col-summary-item-name''\<close>
    by (simp only: HasPrefix_def)
  from prefix_straddle [OF assms(1) this nin] show ?thesis
    by (simp only: HasPrefix_def)
qed

lemma item_match_None:
  \<open>\<not> HasPrefix s ''<div class="col-summary-item-name'' \<Longrightarrow> item_match s = None\<close>
  by (simp add: item_match_def lit_def)

lemma FindAll_filler_tail: "filler tail \<Longrightarrow> FindAllStringSubmatch tail = []"
proof (induction tail)
  case Nil
  show ?case
    by (subst FindAllStringSubmatch.simps) (simp add: item_match_None HasPrefix_def)
next
  case (Cons x t)
  from Cons.prems have "item_match (x # t) = None" and "filler t"
    by (simp_all add: filler_def item_match_None)
  with Cons.IH show ?case
    by (subst FindAllStringSubmatch.simps) simp
qed

lemma FindAll_skip_filler:
  "filler gap \<Longrightarrow>
   FindAllStringSubmatch (gap @ CHR ''<'' # w) = FindAllStringSubmatch (CHR ''<'' # w)"
proof (induction gap)
  case Nil
  show ?case by simp
next
  case (Cons x g)
  from Cons.prems have np: \<open>\<not> HasPrefix (x # g) ''<div class="col-summary-item-name''\<close>
    and "filler g"
    by (simp_all add: filler_def)
  from np have "item_match ((x # g) @ CHR ''<'' # w) = None"
    using HasPrefix_straddle [of "x # g" w] by (intro item_match_None) auto
  then have "FindAllStringSubmatch ((x # g) @ CHR ''<'' # w)
             = FindAllStringSubmatch (g @ CHR ''<'' # w)"
    by (subst FindAllStringSubmatch.simps) simp
  with Cons.IH [OF \<open>filler g\<close>] show ?case by simp
qed

lemma row_markup_starts: "\<exists>w. row_markup r @ rest = CHR ''<'' # w"
  by (simp add: row_markup_def)

lemma FindAll_row:
  assumes "filler gap" and "well_formed_row r"
  shows "map entry (FindAllStringSubmatch (gap @ row_markup r @ rest))
         = (row_href r, row_pre r @ row_post r) # map entry (FindAllStringSubmatch rest)"
proof -
  obtain w where w: "row_markup r @ rest = CHR ''<'' # w"
    using row_markup_starts by blast
  from assms(2) have "row_pre r @ row_post r \<noteq> []"
    by (simp add: well_formed_row_def)
  then have bl: "concat (butlast (runes (row_pre r @ row_post r))) @ last (runes (row_pre r @ row_post r))
                 = row_pre r @ row_post r"
    by (rule runes_butlast_last)
  have "FindAllStringSubmatch (gap @ row_markup r @ rest)
        = FindAllStringSubmatch (row_markup r @ rest)"
    using FindAll_skip_filler [OF assms(1)] by (simp only: w)
  also have "map entry \<dots> = (row_href r, row_pre r @ row_post r)
                             # map entry (FindAllStringSubmatch rest)"
    by (subst FindAllStringSubmatch.simps)
       (simp add: item_match_row [OF assms(2)] entry_def bl)
  finally show ?thesis .
qed

text \<open>
  The canonical expression: for index markup that holds N well-formed summary rows, it
  yields exactly the N entries (link, label) of the rows, in document order, and the
  label of a row split by a soft-wrap marker is the text before the marker followed by
  the text after it.
\<close>

lemma index_rows_in_order:
  assumes "\<forall>(gap, r) \<in> set rows. filler gap \<and> well_formed_row r" and "filler tail"
  shows "map entry (FindAllStringSubmatch (index_markup rows tail))
         = map (\<lambda>(gap, r). (row_href r, row_pre r @ row_post r)) rows"
  using assms
proof (induction rows)
  case Nil
  then show ?case by (simp add: FindAll_filler_tail)
next
  case (Cons gr rows)
  obtain gap r where gr: "gr = (gap, r)" by (cases gr)
  with Cons.prems have "filler gap" "well_formed_row r" by simp_all
  with Cons gr show ?case
    by (simp add: FindAll_row)
qed

lemma index_rows_in_order_example:
  \<open>filler ''<ul>'' \<and> filler '' '' \<and> filler ''</ul>'' \<and>
   well_formed_row \<lparr>row_class = '' even-row-color'', row_href = ''a/B.html#m()'', row_pre = ''B.'',
                     row_wrapped = False, row_post = ''m''\<rparr> \<and>
   well_formed_row \<lparr>row_class = [], row_href = ''org/bukkit/Foo.html'', row_pre = ''org.bukkit.'',
                     row_wrapped = True, row_post = ''Foo''\<rparr> \<and>
   map entry (FindAllStringSubmatch
     ''<ul><div class="col-summary-item-name even-row-color"><a href="a/B.html#m()">B.m</a></div> <div class="col-summary-item-name"><a href="org/bukkit/Foo.html">org.bukkit.<wbr>Foo</a></div></ul>'')
   = [(''a/B.html#m()'', ''B.m''), (''org/bukkit/Foo.html'', ''org.bukkit.Foo'')]\<close>
  using index_rows_in_order
    [of "[(''<ul>'', \<lparr>row_class = '' even-row-color'', row_href = ''a/B.html#m()'', row_pre = ''B.'',
                        row_wrapped = False, row_post = ''m''\<rparr>),
          ('' '', \<lparr>row_class = [], row_href = ''org/bukkit/Foo.html'', row_pre = ''org.bukkit.'',
                     row_wrapped = True, row_post = ''Foo''\<rparr>)]" "''</ul>''"]
  by (simp add: filler_def well_formed_row_def row_markup_def HasPrefix_def dquote_def)

text \<open>
  Claim C2 says that every well-formed summary row gives an entry and that a label split
  by a soft-wrap marker is put together again. The legacy variant of \<open>ParseDeprecations\<close>
  does not do so: its expression has no soft-wrap marker. On markup with two well-formed
  rows, the second with its label split, it finds the first row only, where the
  canonical variant finds both.
\<close>

theorem legacy_extractor_drops_wrapped_row:
  \<open>wrapped_index
     = index_markup
         [(''<ul>'', \<lparr>row_class = '' even-row-color'', row_href = ''a/B.html#m()'', row_pre = ''B.'',
                      row_wrapped = False, row_post = ''m''\<rparr>),
          ('' '', \<lparr>row_class = [], row_href = ''org/bukkit/Foo.html'', row_pre = ''org.bukkit.'',
                   row_wrapped = True, row_post = ''Foo''\<rparr>)] ''</ul>'' \<and>
   well_formed_row \<lparr>row_class = '' even-row-color'', row_href = ''a/B.html#m()'', row_pre = ''B.'',
                     row_wrapped = False, row_post = ''m''\<rparr> \<and>
   well_formed_row \<lparr>row_class = [], row_href = ''org/bukkit/Foo.html'', row_pre = ''org.bukkit.'',
                     row_wrapped = True, row_post = ''Foo''\<rparr> \<and>
   FindAllStringSubmatch_legacy wrapped_index = [(''a/B.html#m()'', ''B.m'')] \<and>
   map entry (FindAllStringSubmatch wrapped_index)
     = [(''a/B.html#m()'', ''B.m''), (''org/bukkit/Foo.html'', ''org.bukkit.Foo'')]\<close>
  using index_rows_in_order_example
  by (simp add: wrapped_index_def row_markup_def well_formed_row_def
      FindAllStringSubmatch_legacy.simps item_match_legacy_def lit_def HasPrefix_def dquote_def)


section \<open>The dispatcher\<close>

lemma receive_mset: "mset (receive sched sent) = mset (concat sent)"
proof (induction sched arbitrary: sent)
  case Nil
  show ?case by simp
next
  case (Cons w sched)
  note IH = Cons.IH
  show ?case
  proof (cases "w < length sent")
    case False
    with IH show ?thesis by simp
  next
    case True
    show ?thesis
    proof (cases "sent ! w")
      case Nil
      with True IH show ?thesis by simp
    next
      case (Cons r rs)
      from True have "sent = take w sent @ sent ! w # drop (Suc w) sent"
        by (rule id_take_nth_drop)
      then have split: "sent = take w sent @ (r # rs) # drop (Suc w) sent"
        by (simp only: Cons)
      from True have upd: "sent[w := rs] = take w sent @ rs # drop (Suc w) sent"
        by (rule upd_conv_take_nth_drop)
      have "mset (receive (w # sched) sent) = {#r#} + mset (concat (sent[w := rs]))"
        using True Cons IH by simp
      also have "\<dots> = mset (concat (take w sent @ (r # rs) # drop (Suc w) sent))"
        by (simp add: upd)
      also have "\<dots> = mset (concat sent)"
        using split by simp
      finally show ?thesis .
    qed
  qed
qed

lemma upt_join: "i \<le> j \<Longrightarrow> j \<le> k \<Longrightarrow> [i..<j] @ [j..<k] = [i..<k]"
  by (metis le_Suc_ex upt_add_eq_append)

lemma worker_concat:
  "concat (map (worker process ms ipw) [0..<n]) =
   map (\<lambda>j. process j (ms ! j)) [0..<min (n * ipw) (length ms)]"
proof (induction n)
  case 0
  show ?case by simp
next
  case (Suc n)
  have "[0..<min (n * ipw) (length ms)] @ [n * ipw..<min (n * ipw + ipw) (length ms)]
        = [0..<min (n * ipw + ipw) (length ms)]"
  proof (cases "n * ipw \<le> length ms")
    case True
    then have "[0..<n * ipw] @ [n * ipw..<min (n * ipw + ipw) (length ms)]
               = [0..<min (n * ipw + ipw) (length ms)]"
      by (intro upt_join) simp_all
    with True show ?thesis by (simp add: min_absorb1)
  next
    case False
    then show ?thesis by (simp add: min_def)
  qed
  then have join: "map (\<lambda>j. process j (ms ! j)) [0..<min (n * ipw) (length ms)] @
      map (\<lambda>j. process j (ms ! j)) [n * ipw..<min (n * ipw + ipw) (length ms)]
      = map (\<lambda>j. process j (ms ! j)) [0..<min (n * ipw + ipw) (length ms)]"
    by (simp only: flip: map_append)
  have w: "worker process ms ipw n =
      map (\<lambda>j. process j (ms ! j)) [n * ipw..<min (n * ipw + ipw) (length ms)]"
    by (simp add: worker_def Let_def min_def)
  have "concat (map (worker process ms ipw) [0..<Suc n])
        = concat (map (worker process ms ipw) [0..<n]) @ worker process ms ipw n"
    by simp
  also have "\<dots> = map (\<lambda>j. process j (ms ! j)) [0..<min (n * ipw + ipw) (length ms)]"
    by (simp only: Suc.IH w join)
  also have "n * ipw + ipw = Suc n * ipw"
    by simp
  finally show ?case .
qed

lemma workers_cover: "0 < n \<Longrightarrow> len \<le> n * ((len + n - 1) div n)" for n len :: nat
  using dividend_less_times_div [of n "len + n - 1"] by linarith

lemma dispatch_concat:
  assumes "0 < n"
  shows "concat (map (worker process ms ((length ms + n - 1) div n)) [0..<n])
         = map (\<lambda>j. process j (ms ! j)) [0..<length ms]"
proof -
  from assms have "min (n * ((length ms + n - 1) div n)) (length ms) = length ms"
    by (intro min_absorb2 workers_cover)
  then show ?thesis
    by (simp only: worker_concat)
qed

lemma dispatch_mset:
  "0 < n \<Longrightarrow>
   mset (receive sched (map (worker process ms ((length ms + n - 1) div n)) [0..<n]))
   = mset (map (\<lambda>j. process j (ms ! j)) [0..<length ms])"
  by (simp only: receive_mset dispatch_concat)

lemma dispatch_length:
  "0 < n \<Longrightarrow>
   length (receive sched (map (worker process ms ((length ms + n - 1) div n)) [0..<n]))
   = length ms"
  using dispatch_mset [of n sched process ms, THEN arg_cong [where f = size]]
  by (simp only: size_mset length_map length_upt diff_zero)

text \<open>
  Claim C1. \<open>ParseDeprecations\<close> returns exactly one result per entry of the index,
  whatever the fetches give and in whatever order the workers deliver: as many results
  as entries, and as a multiset the results are the results of processing each entry
  once. This holds for the variant with ten workers and for the one with eight.
\<close>

theorem ParseDeprecations_one_result_per_entry:
  "length (ParseDeprecations parse net sched c listHtml)
     = length (FindAllStringSubmatch listHtml) \<and>
   mset (ParseDeprecations parse net sched c listHtml)
     = mset (map (\<lambda>j. case FindAllStringSubmatch listHtml ! j of
                        (href, pre, post) \<Rightarrow> processDeprecatedItem parse (net j) c href (pre @ post))
               [0..<length (FindAllStringSubmatch listHtml)]) \<and>
   length (ParseDeprecations_legacy net sched c listHtml)
     = length (FindAllStringSubmatch_legacy listHtml) \<and>
   mset (ParseDeprecations_legacy net sched c listHtml)
     = mset (map (\<lambda>j. case FindAllStringSubmatch_legacy listHtml ! j of
                        (href, label) \<Rightarrow> processDeprecatedItem_legacy (net j) c href label)
               [0..<length (FindAllStringSubmatch_legacy listHtml)])"
proof -
  have ten: "(0::nat) < 10" and eight: "(0::nat) < 8" by simp_all
  show ?thesis
    unfolding ParseDeprecations_def ParseDeprecations_legacy_def Let_def
    by (intro conjI dispatch_length [OF ten] dispatch_mset [OF ten]
        dispatch_length [OF eight] dispatch_mset [OF eight])
qed

lemma ParseDeprecations_mset:
  "mset (ParseDeprecations parse net sched c listHtml)
   = mset (map (\<lambda>j. case FindAllStringSubmatch listHtml ! j of
                      (href, pre, post) \<Rightarrow> processDeprecatedItem parse (net j) c href (pre @ post))
             [0..<length (FindAllStringSubmatch listHtml)])"
proof -
  have ten: "(0::nat) < 10" by simp
  show ?thesis
    unfolding ParseDeprecations_def Let_def by (rule dispatch_mset [OF ten])
qed

lemma filter_upt_only:
  assumes "k < n" and "\<forall>j < n. P j \<longleftrightarrow> j = k"
  shows "filter P [0..<n] = [k]"
proof -
  from assms(1) have "[0..<n] = [0..<k] @ k # [Suc k..<n]"
    by (metis upt_join upt_conv_Cons le_eq_less_or_eq zero_le)
  moreover from assms have "filter P [0..<k] = []"
    by (auto simp: filter_empty_conv)
  moreover from assms have "filter P [Suc k..<n] = []"
    by (auto simp: filter_empty_conv)
  moreover from assms have "P k" by simp
  ultimately show ?thesis by simp
qed

lemma filter_upt_others:
  assumes "k < n" and "\<forall>j < n. Q j \<longleftrightarrow> j \<noteq> k"
  shows "length (filter Q [0..<n]) = n - 1"
proof -
  from assms have "filter (\<lambda>j. \<not> Q j) [0..<n] = [k]"
    by (intro filter_upt_only) auto
  with sum_length_filter_compl [of Q "[0..<n]"] show ?thesis by simp
qed

lemma mset_filter_cong: "mset xs = mset ys \<Longrightarrow> mset (filter P xs) = mset (filter P ys)"
  by (metis mset_filter)

lemma one_failed_fetch:
  assumes "k < length (FindAllStringSubmatch listHtml)"
    and "FetchHTML (net k) c (fst (FindAllStringSubmatch listHtml ! k)) = Inl err"
    and "\<forall>j < length (FindAllStringSubmatch listHtml). j \<noteq> k \<longrightarrow>
           (\<exists>body. FetchHTML (net j) c (fst (FindAllStringSubmatch listHtml ! j)) = Inr body)"
  shows "length (ParseDeprecations parse net sched c listHtml)
           = length (FindAllStringSubmatch listHtml) \<and>
         filter (\<lambda>r. Error r \<noteq> None) (ParseDeprecations parse net sched c listHtml)
           = [\<lparr>Item = snd (entry (FindAllStringSubmatch listHtml ! k)), Version = [],
               Error = Some err\<rparr>] \<and>
         length (filter (\<lambda>r. Error r = None \<and> Version r \<noteq> [])
                   (ParseDeprecations parse net sched c listHtml))
           = length (FindAllStringSubmatch listHtml) - 1 \<and>
         (\<forall>j < length (FindAllStringSubmatch listHtml).
            snd (entry (FindAllStringSubmatch listHtml ! j))
              \<in> Item ` set (ParseDeprecations parse net sched c listHtml))"
proof -
  let ?ms = "FindAllStringSubmatch listHtml"
  let ?rs = "ParseDeprecations parse net sched c listHtml"
  let ?n = "length ?ms"
  define f where "f j = (case ?ms ! j of
      (href, pre, post) \<Rightarrow> processDeprecatedItem parse (net j) c href (pre @ post))" for j
  have ms: "mset ?rs = mset (map f [0..<?n])"
    unfolding f_def by (rule ParseDeprecations_mset)
  have item: "Item (f j) = snd (entry (?ms ! j))" for j
    by (simp add: f_def entry_def processDeprecatedItem_def Let_def split: prod.splits sum.splits)
  have fk: "f k = \<lparr>Item = snd (entry (?ms ! k)), Version = [], Error = Some err\<rparr>"
    using assms(2)
    by (auto simp: f_def entry_def processDeprecatedItem_def split: prod.splits)
  have ok: "Error (f j) = None \<and> Version (f j) \<noteq> []" if "j < ?n" "j \<noteq> k" for j
  proof -
    from assms(3) that obtain body where "FetchHTML (net j) c (fst (?ms ! j)) = Inr body"
      by blast
    then show ?thesis
      by (auto simp: f_def processDeprecatedItem_def Let_def split: prod.splits if_splits)
  qed
  have errs: "Error (f j) \<noteq> None \<longleftrightarrow> j = k" if "j < ?n" for j
  proof (cases "j = k")
    case True
    then show ?thesis by (simp add: fk)
  next
    case False
    with ok [OF that] show ?thesis by simp
  qed
  have vs: "Error (f j) = None \<and> Version (f j) \<noteq> [] \<longleftrightarrow> j \<noteq> k" if "j < ?n" for j
  proof (cases "j = k")
    case True
    then show ?thesis by (simp add: fk)
  next
    case False
    with ok [OF that] show ?thesis by simp
  qed
  have len: "length ?rs = ?n"
    using ms [THEN arg_cong [where f = size]] by simp
  have "mset (filter (\<lambda>r. Error r \<noteq> None) ?rs)
        = mset (filter (\<lambda>r. Error r \<noteq> None) (map f [0..<?n]))"
    using ms by (rule mset_filter_cong)
  also have "filter (\<lambda>r. Error r \<noteq> None) (map f [0..<?n])
        = map f (filter (\<lambda>j. Error (f j) \<noteq> None) [0..<?n])"
    by (simp add: filter_map comp_def)
  also have "filter (\<lambda>j. Error (f j) \<noteq> None) [0..<?n] = [k]"
    by (rule filter_upt_only [OF assms(1)]) (simp add: errs del: not_None_eq)
  finally have err: "filter (\<lambda>r. Error r \<noteq> None) ?rs = [f k]"
    by (simp del: mset_filter not_None_eq)
  have "mset (filter (\<lambda>r. Error r = None \<and> Version r \<noteq> []) ?rs)
        = mset (filter (\<lambda>r. Error r = None \<and> Version r \<noteq> []) (map f [0..<?n]))"
    using ms by (rule mset_filter_cong)
  then have "size (mset (filter (\<lambda>r. Error r = None \<and> Version r \<noteq> []) ?rs))
        = size (mset (filter (\<lambda>r. Error r = None \<and> Version r \<noteq> []) (map f [0..<?n])))"
    by (rule arg_cong)
  then have "length (filter (\<lambda>r. Error r = None \<and> Version r \<noteq> []) ?rs)
        = length (filter (\<lambda>r. Error r = None \<and> Version r \<noteq> []) (map f [0..<?n]))"
    by (simp only: size_mset)
  also have "filter (\<lambda>r. Error r = None \<and> Version r \<noteq> []) (map f [0..<?n])
        = map f (filter (\<lambda>j. Error (f j) = None \<and> Version (f j) \<noteq> []) [0..<?n])"
    by (simp add: filter_map comp_def)
  also have "length \<dots> = length (filter (\<lambda>j. Error (f j) = None \<and> Version (f j) \<noteq> []) [0..<?n])"
    by (rule length_map)
  also have "\<dots> = ?n - 1"
    by (rule filter_upt_others [OF assms(1)]) (simp add: vs)
  finally have vers: "length (filter (\<lambda>r. Error r = None \<and> Version r \<noteq> []) ?rs) = ?n - 1" .
  have "set_mset (mset ?rs) = set_mset (mset (map f [0..<?n]))"
    using ms by (rule arg_cong)
  then have st: "set ?rs = f ` {0..<?n}"
    by simp
  have all: "\<forall>j < ?n. snd (entry (?ms ! j)) \<in> Item ` set ?rs"
  proof (intro allI impI)
    fix j assume "j < ?n"
    then have "f j \<in> set ?rs" by (simp add: st)
    then have "Item (f j) \<in> Item ` set ?rs" by (rule imageI)
    then show "snd (entry (?ms ! j)) \<in> Item ` set ?rs" by (simp only: item)
  qed
  from err have err': "filter (\<lambda>r. Error r \<noteq> None) ?rs
      = [\<lparr>Item = snd (entry (?ms ! k)), Version = [], Error = Some err\<rparr>]"
    by (simp only: fk)
  from len err' vers all show ?thesis
    by (intro conjI)
qed



lemma ParseDeprecations_set:
  "set (ParseDeprecations parse net sched c listHtml)
   = (\<lambda>j. case FindAllStringSubmatch listHtml ! j of
             (href, pre, post) \<Rightarrow> processDeprecatedItem parse (net j) c href (pre @ post))
     ` {0..<length (FindAllStringSubmatch listHtml)}"
  using ParseDeprecations_mset [of parse net sched c listHtml, THEN arg_cong [where f = set_mset]]
  by simp

lemma every_failed_fetch_recorded:
  assumes "j < length (FindAllStringSubmatch listHtml)"
    and "FetchHTML (net j) c (fst (FindAllStringSubmatch listHtml ! j)) = Inl err"
  shows "\<lparr>Item = snd (entry (FindAllStringSubmatch listHtml ! j)), Version = [], Error = Some err\<rparr>
         \<in> set (ParseDeprecations parse net sched c listHtml)"
proof -
  from assms(2) have
    "(case FindAllStringSubmatch listHtml ! j of
        (href, pre, post) \<Rightarrow> processDeprecatedItem parse (net j) c href (pre @ post))
     = \<lparr>Item = snd (entry (FindAllStringSubmatch listHtml ! j)), Version = [], Error = Some err\<rparr>"
    by (auto simp: entry_def processDeprecatedItem_def split: prod.splits)
  with assms(1) show ?thesis
    unfolding ParseDeprecations_set by (metis (lifting) atLeastLessThan_iff imageI zero_le)
qed

lemma five_rows_matches:
  "FindAllStringSubmatch five_rows =
     [(''a/A.html#f()'', ''A.'', ''f''), (''a/B.html#m()'', ''B.'', ''m''), (''a/C.html'', ''a.'', ''C''),
      (''a/D.html#x'', ''D.'', ''x''), (''a/E.html#y'', ''E.'', ''y'')]"
  by (simp add: five_rows_def FindAllStringSubmatch.simps item_match_def lit_def HasPrefix_def
      dquote_def label_wrapped_def label_plain_def Let_def rune_width_def)

text \<open>
  Claim C4. A fetch that fails gives a record that carries the failure, and the batch
  goes on: there are as many records as entries; every entry whose fetch fails has its
  record with that error; and when the fetch of exactly one entry fails and all others
  succeed (one of five, say), the records with an error are exactly the one of the
  failed entry, all others (four of five) have a version and no error, and every entry
  has its record.
\<close>

theorem failed_fetches_recorded:
  "length (ParseDeprecations parse net sched c listHtml)
     = length (FindAllStringSubmatch listHtml) \<and>
   (\<forall>j < length (FindAllStringSubmatch listHtml). \<forall>err.
      FetchHTML (net j) c (fst (FindAllStringSubmatch listHtml ! j)) = Inl err \<longrightarrow>
      \<lparr>Item = snd (entry (FindAllStringSubmatch listHtml ! j)), Version = [], Error = Some err\<rparr>
        \<in> set (ParseDeprecations parse net sched c listHtml)) \<and>
   (\<forall>k < length (FindAllStringSubmatch listHtml). \<forall>err.
      FetchHTML (net k) c (fst (FindAllStringSubmatch listHtml ! k)) = Inl err \<and>
      (\<forall>j < length (FindAllStringSubmatch listHtml). j \<noteq> k \<longrightarrow>
         (\<exists>body. FetchHTML (net j) c (fst (FindAllStringSubmatch listHtml ! j)) = Inr body)) \<longrightarrow>
      filter (\<lambda>r. Error r \<noteq> None) (ParseDeprecations parse net sched c listHtml)
        = [\<lparr>Item = snd (entry (FindAllStringSubmatch listHtml ! k)), Version = [],
            Error = Some err\<rparr>] \<and>
      length (filter (\<lambda>r. Error r = None \<and> Version r \<noteq> [])
                (ParseDeprecations parse net sched c listHtml))
        = length (FindAllStringSubmatch listHtml) - 1 \<and>
      (\<forall>j < length (FindAllStringSubmatch listHtml).
         snd (entry (FindAllStringSubmatch listHtml ! j))
           \<in> Item ` set (ParseDeprecations parse net sched c listHtml)))"
proof (intro conjI allI impI)
  show "length (ParseDeprecations parse net sched c listHtml)
     = length (FindAllStringSubmatch listHtml)"
    using ParseDeprecations_mset [of parse net sched c listHtml, THEN arg_cong [where f = size]]
    by simp
next
  fix j err
  assume "j < length (FindAllStringSubmatch listHtml)"
    and "FetchHTML (net j) c (fst (FindAllStringSubmatch listHtml ! j)) = Inl err"
  then show "\<lparr>Item = snd (entry (FindAllStringSubmatch listHtml ! j)), Version = [],
      Error = Some err\<rparr> \<in> set (ParseDeprecations parse net sched c listHtml)"
    by (rule every_failed_fetch_recorded)
next
  fix k err
  assume k: "k < length (FindAllStringSubmatch listHtml)"
    and h: "FetchHTML (net k) c (fst (FindAllStringSubmatch listHtml ! k)) = Inl err \<and>
      (\<forall>j < length (FindAllStringSubmatch listHtml). j \<noteq> k \<longrightarrow>
         (\<exists>body. FetchHTML (net j) c (fst (FindAllStringSubmatch listHtml ! j)) = Inr body))"
  from one_failed_fetch [OF k conjunct1 [OF h] conjunct2 [OF h], of parse sched]
  show "filter (\<lambda>r. Error r \<noteq> None) (ParseDeprecations parse net sched c listHtml)
        = [\<lparr>Item = snd (entry (FindAllStringSubmatch listHtml ! k)), Version = [],
            Error = Some err\<rparr>]"
    and "length (filter (\<lambda>r. Error r = None \<and> Version r \<noteq> [])
                (ParseDeprecations parse net sched c listHtml))
        = length (FindAllStringSubmatch listHtml) - 1"
    and "\<And>j. j < length (FindAllStringSubmatch listHtml) \<Longrightarrow>
         snd (entry (FindAllStringSubmatch listHtml ! j))
           \<in> Item ` set (ParseDeprecations parse net sched c listHtml)"
    by blast+
qed

theorem failed_fetches_recorded_witness:
  "length (ParseDeprecations (\<lambda>_. Inl ''no tree'') one_down [4, 0, 3, 1, 2, 0] paper five_rows) = 5 \<and>
   filter (\<lambda>r. Error r \<noteq> None)
     (ParseDeprecations (\<lambda>_. Inl ''no tree'') one_down [4, 0, 3, 1, 2, 0] paper five_rows)
     = [\<lparr>Item = ''a.C'', Version = [],
         Error = Some ''fetch failed for https://jd.papermc.io/paper/1.21.3/a/C.html: connection reset''\<rparr>] \<and>
   length (filter (\<lambda>r. Error r = None \<and> Version r \<noteq> [])
     (ParseDeprecations (\<lambda>_. Inl ''no tree'') one_down [4, 0, 3, 1, 2, 0] paper five_rows)) = 4"
proof -
  have k: "2 < length (FindAllStringSubmatch five_rows)"
    by (simp add: five_rows_matches)
  have down: "FetchHTML (one_down 2) paper (fst (FindAllStringSubmatch five_rows ! 2))
      = Inl ''fetch failed for https://jd.papermc.io/paper/1.21.3/a/C.html: connection reset''"
    by (simp add: five_rows_matches one_down_def paper_def FetchHTML_def GetFullURL_def HasPrefix_def)
  have up: "\<forall>j < length (FindAllStringSubmatch five_rows). j \<noteq> 2 \<longrightarrow>
      (\<exists>body. FetchHTML (one_down j) paper (fst (FindAllStringSubmatch five_rows ! j)) = Inr body)"
    by (simp add: one_down_def FetchHTML_def Let_def)
  from failed_fetches_recorded [of "\<lambda>_. Inl ''no tree''" one_down "[4, 0, 3, 1, 2, 0]" paper five_rows]
    k down up
  have "length (ParseDeprecations (\<lambda>_. Inl ''no tree'') one_down [4, 0, 3, 1, 2, 0] paper five_rows)
          = length (FindAllStringSubmatch five_rows) \<and>
        filter (\<lambda>r. Error r \<noteq> None)
          (ParseDeprecations (\<lambda>_. Inl ''no tree'') one_down [4, 0, 3, 1, 2, 0] paper five_rows)
          = [\<lparr>Item = snd (entry (FindAllStringSubmatch five_rows ! 2)), Version = [],
              Error = Some ''fetch failed for https://jd.papermc.io/paper/1.21.3/a/C.html: connection reset''\<rparr>] \<and>
        length (filter (\<lambda>r. Error r = None \<and> Version r \<noteq> [])
          (ParseDeprecations (\<lambda>_. Inl ''no tree'') one_down [4, 0, 3, 1, 2, 0] paper five_rows))
          = length (FindAllStringSubmatch five_rows) - 1"
    by blast
  then show ?thesis
    by (simp add: five_rows_matches entry_def del: not_None_eq)
qed

section \<open>The detail extractor\<close>

lemma itemName_local_name:
  "drop (nat (LastIndex s (CHR ''.'') + 1)) s = local_name s"
proof (cases "CHR ''.'' \<in> set s")
  case False
  then show ?thesis
    by (simp add: LastIndex_def local_name_def Split_no_sep)
next
  case True
  let ?t = "takeWhile (\<lambda>x. x \<noteq> CHR ''.'') (rev s)"
  from True have lt: "length ?t < length s"
    using takeWhile_neq_shorter [of "CHR ''.''" "rev s"] by simp
  have "rev s = ?t @ dropWhile (\<lambda>x. x \<noteq> CHR ''.'') (rev s)"
    by simp
  then have "s = rev (dropWhile (\<lambda>x. x \<noteq> CHR ''.'') (rev s)) @ rev ?t"
    by (metis rev_append rev_rev_ident)
  moreover have "length (rev (dropWhile (\<lambda>x. x \<noteq> CHR ''.'') (rev s))) = length s - length ?t"
    by (metis length_rev length_append add_diff_cancel_left' takeWhile_dropWhile_id)
  ultimately have "drop (length s - length ?t) s = rev ?t"
    by (metis append_eq_conv_conj)
  moreover from True lt have "nat (LastIndex s (CHR ''.'') + 1) = length s - length ?t"
    by (simp add: LastIndex_def)
  ultimately show ?thesis
    by (simp add: local_name_def last_Split)
qed

lemma since_loop_no_text:
  "\<not> list_ex is_version_text cs \<Longrightarrow> since_loop b cs = []"
proof (induction cs arbitrary: b)
  case Nil
  show ?case by simp
next
  case (Cons c cs)
  from Cons.prems have "\<not> is_version_text c" and rest: "\<not> list_ex is_version_text cs"
    by simp_all
  then have "\<not> (Type c = TextNode \<and> Contains (TrimSpace (Data c)) ''='')"
    using set_TrimSpace [of "Data c"] by (auto simp: is_version_text_def Contains_single)
  with Cons.IH [OF rest] show ?case
    by (auto simp: Let_def)
qed

lemma since_loop_not_qualifying:
  "\<not> qualifying cs \<Longrightarrow> since_loop False cs = []"
proof (induction cs)
  case Nil
  show ?case by simp
next
  case (Cons c cs)
  show ?case
  proof (cases "is_since_link c")
    case True
    with Cons.prems have "\<not> list_ex is_version_text cs" by simp
    then have "since_loop True cs = []" by (rule since_loop_no_text)
    moreover from True have "Type c \<noteq> TextNode" by (simp add: is_since_link_def)
    ultimately show ?thesis using True by (simp add: Let_def)
  next
    case False
    with Cons show ?thesis by (simp add: Let_def)
  qed
qed

lemma traverse_None:
  "traverse name n found = None \<longleftrightarrow> found = None \<and> (\<forall>m \<in> set (nodes n). \<not> is_section name m)"
  "traverse_children name cs found = None \<longleftrightarrow>
     found = None \<and> (\<forall>c \<in> set cs. \<forall>m \<in> set (nodes c). \<not> is_section name m)"
proof (induction name n found and name cs found rule: traverse_traverse_children.induct)
  case (1 id' t d as cs found)
  then show ?case
    by (auto simp: is_section_def list_ex_iff)
next
  case (2 id' found)
  show ?case by simp
next
  case (3 id' c cs found)
  then show ?case by auto
qed

lemma findAnnotationsSpan_None:
  "findAnnotationsSpan n = None \<longleftrightarrow> (\<forall>m \<in> set (nodes n). \<not> is_annotations m)"
  "findAnnotationsSpan_children cs = None \<longleftrightarrow>
     (\<forall>c \<in> set cs. \<forall>m \<in> set (nodes c). \<not> is_annotations m)"
proof (induction n and cs rule: findAnnotationsSpan_findAnnotationsSpan_children.induct)
  case (1 t d as cs)
  then show ?case
    by (auto simp: is_annotations_def list_ex_iff)
next
  case 2
  show ?case by simp
next
  case (3 c cs)
  then show ?case by (auto split: option.splits)
qed

text \<open>
  Claim C5. When the page was fetched and parsed and no section with the local name of
  the symbol is in the tree, or the section that was found holds no annotations span, or
  the children of that span hold no qualifying pair, then the extraction gives nothing
  and the record has the version "Unknown" and no error.
\<close>

theorem no_version_is_Unknown:
  assumes "FetchHTML http c link = Inr html" and "parse html = Inr doc"
    and "(\<forall>m \<in> set (nodes doc). \<not> is_section (local_name item) m) \<or>
         (\<exists>sec. findElementNodeByID doc (local_name item) = Some sec \<and>
            ((\<forall>m \<in> set (nodes sec). \<not> is_annotations m) \<or>
             (\<exists>span. findAnnotationsSpan sec = Some span \<and> \<not> qualifying (Children span))))"
  shows "extractDeprecatedSince parse html item = [] \<and>
         processDeprecatedItem parse http c link item
           = \<lparr>Item = item, Version = ''Unknown'', Error = None\<rparr>"
proof -
  from assms(3) have "extractDeprecatedSince parse html item = []"
  proof (elim disjE exE conjE)
    assume "\<forall>m \<in> set (nodes doc). \<not> is_section (local_name item) m"
    then have "findElementNodeByID doc (local_name item) = None"
      by (simp add: findElementNodeByID_def traverse_None)
    with assms(2) show ?thesis
      by (simp add: extractDeprecatedSince_def itemName_local_name)
  next
    fix sec
    assume found: "findElementNodeByID doc (local_name item) = Some sec"
      and "\<forall>m \<in> set (nodes sec). \<not> is_annotations m"
    then have "findAnnotationsSpan sec = None"
      by (simp add: findAnnotationsSpan_None)
    with assms(2) found show ?thesis
      by (simp add: extractDeprecatedSince_def itemName_local_name
          extractDeprecatedSinceFromNode_def)
  next
    fix sec span
    assume "findElementNodeByID doc (local_name item) = Some sec"
      and "findAnnotationsSpan sec = Some span" and "\<not> qualifying (Children span)"
    with assms(2) show ?thesis
      by (simp add: extractDeprecatedSince_def itemName_local_name
          extractDeprecatedSinceFromNode_def since_loop_not_qualifying)
  qed
  with assms(1) show ?thesis
    by (simp add: processDeprecatedItem_def)
qed

theorem no_version_is_Unknown_witness:
  \<open>processDeprecatedItem
     (\<lambda>_. Inr (Node DocumentNode [] []
        [Node ElementNode ''section'' [Attribute [] ''id'' ''m'']
           [Node ElementNode ''span'' [Attribute [] ''class'' ''modifiers'']
              [Node TextNode ''void'' [] []]]]))
     (\<lambda>_. Body ''<section id="m"><span class="modifiers">void</span></section>'')
     \<lparr>BaseURL = ''https://jd.papermc.io/paper'', Version_cfg = ''1.21.3'', UseCachedData = False\<rparr>
     ''a/B.html#m()'' ''B.m''
   = \<lparr>Item = ''B.m'', Version = ''Unknown'', Error = None\<rparr>\<close>
proof -
  let ?sec = "Node ElementNode ''section'' [Attribute [] ''id'' ''m'']
           [Node ElementNode ''span'' [Attribute [] ''class'' ''modifiers'']
              [Node TextNode ''void'' [] []]]"
  let ?doc = "Node DocumentNode [] [] [?sec]"
  let ?http = \<open>\<lambda>_::string. Body ''<section id="m"><span class="modifiers">void</span></section>''\<close>
  let ?c = "\<lparr>BaseURL = ''https://jd.papermc.io/paper'', Version_cfg = ''1.21.3'', UseCachedData = False\<rparr>"
  have fetch: \<open>FetchHTML ?http ?c ''a/B.html#m()''
      = Inr ''<section id="m"><span class="modifiers">void</span></section>''\<close>
    by (simp add: FetchHTML_def)
  have ln: "local_name ''B.m'' = ''m''"
    by (simp add: local_name_def)
  have found: "findElementNodeByID ?doc (local_name ''B.m'') = Some ?sec"
    by (simp add: ln findElementNodeByID_def)
  have none: "\<forall>m \<in> set (nodes ?sec). \<not> is_annotations m"
    by (simp add: is_annotations_def)
  from no_version_is_Unknown [of ?http ?c _ _ "\<lambda>_. Inr ?doc" ?doc "''B.m''", OF fetch refl]
    found none
  show ?thesis by blast
qed

lemma is_since_link_iff: "is_since_link c \<longleftrightarrow> since_hyperlink c"
  by (simp add: is_since_link_def since_hyperlink_def list_ex_iff)

lemma since_loop_after_link:
  assumes "\<forall>c \<in> set between. \<not> is_version_text c" and "Contains (TrimSpace text) ''=''"
  shows "since_loop True (between @ Node TextNode text as cs # after) = version_of_text (TrimSpace text)"
  using assms(1)
proof (induction between)
  case Nil
  with assms(2) show ?case by (simp add: Let_def)
next
  case (Cons c between)
  from Cons.prems have "\<not> is_version_text c" by simp
  then have "\<not> (Type c = TextNode \<and> Contains (TrimSpace (Data c)) ''='')"
    using set_TrimSpace [of "Data c"] by (auto simp: is_version_text_def Contains_single)
  with Cons show ?case by (auto simp: Let_def)
qed

lemma since_loop_before_link:
  assumes "\<forall>c \<in> set before. \<not> since_hyperlink c" and "since_hyperlink link"
  shows "since_loop False (before @ link # rest) = since_loop True rest"
  using assms(1)
proof (induction before)
  case Nil
  from assms(2) have "Type link \<noteq> TextNode" by (simp add: since_hyperlink_def)
  with assms(2) show ?case by (simp add: Let_def is_since_link_iff)
next
  case (Cons c before)
  then show ?case by (simp add: Let_def is_since_link_iff)
qed

lemma findAnnotationsSpan_first:
  "findAnnotationsSpan n = (case filter is_annotations (nodes n) of [] \<Rightarrow> None | s # _ \<Rightarrow> Some s)"
  "findAnnotationsSpan_children cs =
     (case filter is_annotations (concat (map nodes cs)) of [] \<Rightarrow> None | s # _ \<Rightarrow> Some s)"
proof (induction n and cs rule: findAnnotationsSpan_findAnnotationsSpan_children.induct)
  case (1 t d as cs)
  then show ?case
    by (auto simp: is_annotations_def list_ex_iff)
next
  case 2
  show ?case by simp
next
  case (3 c cs)
  then show ?case by (auto split: option.splits list.splits)
qed

text \<open>
  \<open>findElementNodeByID\<close> keeps the last section it meets, and it does not look inside a
  section that it has met.
\<close>

lemma nodes_child: "c \<in> set cs \<Longrightarrow> s \<in> set (nodes c) \<Longrightarrow> s \<in> set (nodes (Node t d as cs))"
  by auto

lemma sections_apart_child:
  assumes "sections_apart name (Node t d as cs)" and "c \<in> set cs"
  shows "sections_apart name c"
  unfolding sections_apart_def
proof (intro ballI impI)
  fix s m
  assume s: "s \<in> set (nodes c)" and sec: "is_section name s"
    and m: "m \<in> set (concat (map nodes (Children s)))"
  from assms(2) s have "s \<in> set (nodes (Node t d as cs))" by (rule nodes_child)
  with assms(1) have "is_section name s \<longrightarrow>
      (\<forall>m \<in> set (concat (map nodes (Children s))). \<not> is_section name m)"
    unfolding sections_apart_def by (rule bspec)
  from this sec have "\<forall>m \<in> set (concat (map nodes (Children s))). \<not> is_section name m"
    by (rule mp)
  from this m show "\<not> is_section name m" by (rule bspec)
qed

lemma sections_apart_root:
  assumes "sections_apart name (Node t d as cs)" and "is_section name (Node t d as cs)"
  shows "filter (is_section name) (concat (map nodes cs)) = []"
proof -
  have "Node t d as cs \<in> set (nodes (Node t d as cs))" by simp
  with assms(1) have "is_section name (Node t d as cs) \<longrightarrow>
      (\<forall>m \<in> set (concat (map nodes (Children (Node t d as cs)))). \<not> is_section name m)"
    unfolding sections_apart_def by (rule bspec)
  from this assms(2)
  have "\<forall>m \<in> set (concat (map nodes (Children (Node t d as cs)))). \<not> is_section name m"
    by (rule mp)
  then have "\<forall>m \<in> set (concat (map nodes cs)). \<not> is_section name m"
    by (simp only: Node.sel)
  then show ?thesis by (simp only: filter_empty_conv) 
qed

lemma traverse_last:
  "sections_apart name n
   \<Longrightarrow> traverse name n found =
     (case rev (filter (is_section name) (nodes n)) of [] \<Rightarrow> found | s # _ \<Rightarrow> Some s)"
  "\<forall>c \<in> set cs. sections_apart name c
   \<Longrightarrow> traverse_children name cs found =
     (case rev (filter (is_section name) (concat (map nodes cs))) of [] \<Rightarrow> found | s # _ \<Rightarrow> Some s)"
proof (induction name n found and name cs found rule: traverse_traverse_children.induct)
  case (1 id' t d as cs found)
  show ?case
  proof (cases "is_section id' (Node t d as cs)")
    case True
    have e: "filter (is_section id') (concat (map nodes cs)) = []"
      using sections_apart_root [OF 1(2) True] .
    from True have "t = ElementNode \<and> d = ''section'' \<and> list_ex (\<lambda>attr. Key attr = ''id'' \<and> Val attr = id') as"
      by (simp add: is_section_def list_ex_iff)
    then have "traverse id' (Node t d as cs) found = Some (Node t d as cs)"
      by simp
    moreover from True e have "rev (filter (is_section id') (nodes (Node t d as cs))) = [Node t d as cs]"
      by simp
    ultimately show ?thesis by simp
  next
    case False
    then have no: "\<not> (t = ElementNode \<and> d = ''section'' \<and> list_ex (\<lambda>attr. Key attr = ''id'' \<and> Val attr = id') as)"
      by (simp add: is_section_def list_ex_iff)
    have "\<forall>c \<in> set cs. sections_apart id' c"
      using sections_apart_child [OF 1(2)] by blast
    from 1(1) [OF no this] have "traverse_children id' cs found =
       (case rev (filter (is_section id') (concat (map nodes cs))) of [] \<Rightarrow> found | s # _ \<Rightarrow> Some s)" .
    moreover have "traverse id' (Node t d as cs) found = traverse_children id' cs found"
      by (simp only: traverse.simps no if_False)
    moreover from False have "filter (is_section id') (nodes (Node t d as cs))
        = filter (is_section id') (concat (map nodes cs))"
      by simp
    ultimately show ?thesis
      by (simp only:)
  qed
next
  case (2 id' found)
  show ?case by simp
next
  case (3 id' c cs found)
  from 3(3) have c: "sections_apart id' c" and cs: "\<forall>c \<in> set cs. sections_apart id' c"
    by simp_all
  have app: "rev (filter (is_section id') (concat (map nodes (c # cs))))
      = rev (filter (is_section id') (concat (map nodes cs))) @ rev (filter (is_section id') (nodes c))"
    by simp
  have "traverse_children id' (c # cs) found = traverse_children id' cs (traverse id' c found)"
    by simp
  also have "\<dots> = (case rev (filter (is_section id') (concat (map nodes cs))) of
                     [] \<Rightarrow> traverse id' c found | s # _ \<Rightarrow> Some s)"
    by (rule 3(2) [OF cs])
  also have "\<dots> = (case rev (filter (is_section id') (concat (map nodes (c # cs)))) of
                     [] \<Rightarrow> found | s # _ \<Rightarrow> Some s)"
    unfolding app 3(1) [OF c]
    by (cases "rev (filter (is_section id') (concat (map nodes cs)))") simp_all
  finally show ?case .
qed

lemma TrimSpace_newline:
  assumes "s \<noteq> []" and "hd s \<notin> hd ` set space_runes" and "last s \<notin> last ` set space_runes"
  shows "TrimSpace (s @ [CHR 0x0A]) = s"
proof -
  from assms(1,2) have "leading_space (s @ [CHR 0x0A]) = 0"
    by (intro leading_space_0) simp_all
  then have l: "TrimLeftSpace (s @ [CHR 0x0A]) = s @ [CHR 0x0A]"
    by (simp add: TrimLeftSpace.simps [of "s @ [CHR 0x0A]"])
  have t: "trailing_space (s @ [CHR 0x0A]) = 1"
    by (simp add: trailing_space_def space_runes_def HasSuffix_def)
  from assms(1,3) have "trailing_space s = 0"
    by (intro trailing_space_0) simp_all
  then have "TrimRightSpace s = s"
    by (simp add: TrimRightSpace.simps [of s])
  with t have "TrimRightSpace (s @ [CHR 0x0A]) = s"
    by (simp add: TrimRightSpace.simps [of "s @ [CHR 0x0A]"])
  with l show ?thesis by (simp add: TrimSpace_def)
qed

lemma version_of_since_text:
  assumes "CHR ''='' \<notin> set key"
    and "v \<noteq> []" and "CHR ''='' \<notin> set v" and "hd v \<noteq> dquote" and \<open>\<not> HasSuffix v ''",''\<close>
    and "closing = '')'' \<or> closing = '',''"
  shows "version_of_text (since_text key v closing) = v"
proof -
  from assms(3,6) have n: \<open>CHR ''='' \<notin> set (CHR 0x22 # v @ CHR 0x22 # closing)\<close>
    by auto
  have \<open>Split (key @ CHR ''='' # (CHR 0x22 # v @ CHR 0x22 # closing)) (CHR ''='')
        = key # Split (CHR 0x22 # v @ CHR 0x22 # closing) (CHR ''='')\<close>
    using assms(1) by (rule Split_at_sep)
  also have \<open>Split (CHR 0x22 # v @ CHR 0x22 # closing) (CHR ''='') = [CHR 0x22 # v @ CHR 0x22 # closing]\<close>
    using n by (rule Split_no_sep)
  finally have sp: \<open>Split (since_text key v closing) (CHR ''='') ! 1 = CHR 0x22 # v @ CHR 0x22 # closing\<close>
    by (simp add: since_text_def)
  from assms(2,4) obtain x w where v: "v = x # w" and x: "x \<noteq> CHR 0x22"
    by (cases v) (auto simp: dquote_def)
  have tr: \<open>Trim (CHR 0x22 # v @ CHR 0x22 # closing) ''"'' = v @ CHR 0x22 # closing\<close>
    using x assms(6) by (auto simp: Trim_def v)
  from assms(6) show ?thesis
  proof
    assume c: "closing = '')''"
    have s1: \<open>TrimSuffix (v @ CHR 0x22 # closing) ''")'' = v\<close>
      by (simp add: TrimSuffix_def HasSuffix_def c)
    from assms(5) have s2: \<open>TrimSuffix v ''",'' = v\<close>
      by (simp add: TrimSuffix_def)
    show ?thesis
      unfolding version_of_text_def Let_def sp tr s1 s2 ..
  next
    assume c: "closing = '',''"
    have s1: \<open>TrimSuffix (v @ CHR 0x22 # closing) ''")'' = v @ CHR 0x22 # closing\<close>
      by (simp add: TrimSuffix_def HasSuffix_def c)
    have s2: \<open>TrimSuffix (v @ CHR 0x22 # closing) ''",'' = v\<close>
      by (simp add: TrimSuffix_def HasSuffix_def c)
    show ?thesis
      unfolding version_of_text_def Let_def sp tr s1 s2 ..
  qed
qed

text \<open>
  Claim C3. A detail page was parsed into the tree \<open>doc\<close>. Among the sections whose
  \<open>id\<close> is the local name of the symbol (\<open>m\<close> for the symbol \<open>B.m\<close> of the scenario),
  which lie apart, \<open>sec\<close> is the last one in document order: the only one in a
  well-formed page. \<open>span\<close> is the first annotations span in \<open>sec\<close>. Its children are,
  in this order: nodes none of which is a since hyperlink; a since hyperlink; nodes none
  of which is a text that holds \<open>=\<close>; a text node that reads, without the white space
  around it, a key, \<open>=\<close>, the version \<open>v\<close> in quotes and a closing parenthesis or
  comma (\<open>since="1.20.1")\<close> in the scenario); and whatever follows. The version is not
  empty, holds no \<open>=\<close>, does not start with a quote and does not end in a quote and a
  comma. Then the extractor returns \<open>v\<close>: what follows the \<open>=\<close>, without the quotes
  around it and without the closing parenthesis or comma.
\<close>

theorem since_version_extracted:
  assumes "parse markup = Inr doc"
    and "sections_apart (local_name symbol) doc"
    and "filter (is_section (local_name symbol)) (nodes doc) = earlier @ [sec]"
    and "filter is_annotations (nodes sec) = span # later"
    and "Children span = before @ link # between @ Node TextNode data attrs kids # after"
    and "\<forall>c \<in> set before. \<not> since_hyperlink c" and "since_hyperlink link"
    and "\<forall>c \<in> set between. \<not> is_version_text c"
    and "TrimSpace data = since_text key v closing" and "CHR ''='' \<notin> set key"
    and "closing = '')'' \<or> closing = '',''"
    and "v \<noteq> []" and "CHR ''='' \<notin> set v" and "hd v \<noteq> dquote" and \<open>\<not> HasSuffix v ''",''\<close>
  shows "extractDeprecatedSince parse markup symbol = v"
proof -
  have found: "findElementNodeByID doc (local_name symbol) = Some sec"
    by (simp add: findElementNodeByID_def traverse_last(1) [OF assms(2)] assms(3))
  have annotations: "findAnnotationsSpan sec = Some span"
    by (simp add: findAnnotationsSpan_first(1) assms(4))
  have "Contains (TrimSpace data) ''=''"
    by (simp add: assms(9) Contains_single since_text_def)
  then have "since_loop True (between @ Node TextNode data attrs kids # after) = version_of_text (TrimSpace data)"
    by (rule since_loop_after_link [OF assms(8)])
  then have "since_loop False (Children span) = version_of_text (since_text key v closing)"
    by (simp only: assms(5) assms(9) since_loop_before_link [OF assms(6,7)])
  also have "\<dots> = v"
    using assms(10,12-15) assms(11) by (rule version_of_since_text)
  finally show ?thesis
    using assms(1) found annotations
    by (simp add: extractDeprecatedSince_def itemName_local_name extractDeprecatedSinceFromNode_def)
qed

theorem since_version_extracted_witness:
  \<open>local_name ''B.m'' = ''m'' \<and>
   extractDeprecatedSince (\<lambda>_. Inr detail_page) ''<!DOCTYPE html>'' ''B.m'' = ''1.20.1''\<close>
proof -
  let ?before = \<open>[Node ElementNode ''a'' [Attribute [] ''href'' ''../java/lang/Deprecated.html'']
                    [Node TextNode ''@Deprecated'' [] []],
                  Node TextNode ''('' [] [],
                  Node ElementNode ''a''
                    [Attribute [] ''href'' ''../java/lang/Deprecated.html#forRemoval()'']
                    [Node TextNode ''forRemoval'' [] []],
                  Node TextNode ''=true, '' [] []]\<close>
  let ?text = \<open>''since="1.20.1")'' @ [CHR 0x0A]\<close>
  let ?span = \<open>Node ElementNode ''span'' [Attribute [] ''class'' ''annotations'']
                 (?before @ [since_link, Node TextNode ?text [] []])\<close>
  let ?sec = \<open>member_section ''m''
                [Node ElementNode ''a''
                   [Attribute [] ''href'' ''../java/lang/Deprecated.html#forRemoval()'']
                   [Node TextNode ''forRemoval'' [] []],
                 Node TextNode ''=true, '' [] [],
                 since_link,
                 Node TextNode ?text [] []]\<close>
  have ln: "local_name ''B.m'' = ''m''"
    by (simp add: local_name_def)
  have apart: "sections_apart (local_name ''B.m'') detail_page"
    by (simp add: ln sections_apart_def detail_page_def member_section_def since_link_def is_section_def)
  have secs: "filter (is_section (local_name ''B.m'')) (nodes detail_page) = [] @ [?sec]"
    by (simp add: ln detail_page_def member_section_def since_link_def is_section_def)
  have spans: "filter is_annotations (nodes ?sec) = ?span # []"
    by (simp add: member_section_def since_link_def is_annotations_def)
  have kids: "Children ?span = ?before @ since_link # [] @ Node TextNode ?text [] [] # []"
    by simp
  have before: "\<forall>c \<in> set ?before. \<not> since_hyperlink c"
    by (simp add: since_hyperlink_def HasPrefix_def)
  have link: "since_hyperlink since_link"
    by (simp add: since_hyperlink_def since_link_def HasPrefix_def)
  have between: "\<forall>c \<in> set []. \<not> is_version_text c"
    by simp
  have trimmed: \<open>TrimSpace ?text = since_text ''since'' ''1.20.1'' '')''\<close>
    unfolding since_text_def
    by (rule trans [OF TrimSpace_newline]) (simp_all add: space_runes_def)
  have \<open>extractDeprecatedSince (\<lambda>_. Inr detail_page) ''<!DOCTYPE html>'' ''B.m'' = ''1.20.1''\<close>
    by (rule since_version_extracted
        [where parse = "\<lambda>_. Inr detail_page" and doc = detail_page and earlier = "[]"
           and sec = ?sec and span = ?span and later = "[]" and before = ?before
           and link = since_link and between = "[]" and data = ?text and attrs = "[]"
           and kids = "[]" and after = "[]" and key = "''since''" and closing = "'')''",
         OF refl apart secs spans kids before link between trimmed])
       (simp_all add: dquote_def HasSuffix_def)
  with ln show ?thesis by simp
qed


section \<open>The records of the dispatcher\<close>

text \<open>
  Claim C10. In every result of \<open>processDeprecatedItem\<close> the error is set exactly when
  the version is the empty string: no record has both a version and an error, and none
  has neither. This holds for both variants.
\<close>

theorem error_iff_no_version:
  "(Error (processDeprecatedItem parse http c link item) \<noteq> None \<longleftrightarrow>
      Version (processDeprecatedItem parse http c link item) = []) \<and>
   (Error (processDeprecatedItem_legacy http c link item) \<noteq> None \<longleftrightarrow>
      Version (processDeprecatedItem_legacy http c link item) = [])"
  by (simp add: processDeprecatedItem_def processDeprecatedItem_legacy_def Let_def
      split: sum.splits)


section \<open>The cache\<close>

text \<open>
  Claim C9. \<open>LoadCache\<close> on a path whose file does not exist returns an empty snapshot
  and no error; after any other failure to read, and after a failure to decode, it
  returns the error and no snapshot.
\<close>

theorem LoadCache_soft_on_missing_file:
  "(\<forall>err. ReadFile w path = Inl err \<and> IsNotExist err \<longrightarrow>
      LoadCache w path = Inr \<lparr>Entries = []\<rparr>) \<and>
   (\<forall>err. ReadFile w path = Inl err \<and> \<not> IsNotExist err \<longrightarrow>
      LoadCache w path = Inl (IOError err)) \<and>
   (\<forall>data err. ReadFile w path = Inr data \<and> Unmarshal w data = Inl err \<longrightarrow>
      LoadCache w path = Inl (DecodeError err)) \<and>
   (\<forall>data cache. ReadFile w path = Inr data \<and> Unmarshal w data = Inr cache \<longrightarrow>
      LoadCache w path = Inr cache)"
  by (simp add: LoadCache_def)

theorem LoadCache_soft_on_missing_file_witness:
  "LoadCache disk ''missing.json'' = Inr \<lparr>Entries = []\<rparr> \<and>
   LoadCache disk ''locked.json'' = Inl (IOError (ErrOther ''permission denied'')) \<and>
   LoadCache disk ''broken.json'' = Inl (DecodeError ''unexpected end of JSON input'')"
proof -
  have "ReadFile disk ''missing.json'' = Inl ErrNotExist \<and> IsNotExist ErrNotExist"
    by (simp add: disk_def IsNotExist_def)
  moreover have "ReadFile disk ''locked.json'' = Inl (ErrOther ''permission denied'') \<and>
      \<not> IsNotExist (ErrOther ''permission denied'')"
    by (simp add: disk_def IsNotExist_def)
  moreover have "ReadFile disk ''broken.json'' = Inr ''{'' \<and>
      Unmarshal disk ''{'' = Inl ''unexpected end of JSON input''"
    by (simp add: disk_def)
  ultimately show ?thesis
    using LoadCache_soft_on_missing_file [of disk "''missing.json''"]
      LoadCache_soft_on_missing_file [of disk "''locked.json''"]
      LoadCache_soft_on_missing_file [of disk "''broken.json''"]
    by blast
qed

lemma Sub_less_day: "Sub now t < 24 * Hour \<longleftrightarrow> now - t < 24 * Hour"
  by (simp add: Sub_def Hour_def)

text \<open>
  Claim C8 as stated fails: with cache use requested, a snapshot whose first entry is 25
  hours old and whose second entry is one hour old has its newest timestamp within the
  24 hours, and \<open>main\<close> does not replay it.
\<close>

theorem replay_newest_counterexample:
  "main_replay \<lparr>BaseURL = ''https://jd.papermc.io/paper'', Version_cfg = ''1.21.3'', UseCachedData = True\<rparr>
     (Inr \<lparr>Entries = [\<lparr>Version_entry = ''1.20.1'', Items = [''a.B.m''], LastUpdated = 0\<rparr>,
                      \<lparr>Version_entry = ''1.21'', Items = [''a.C''], LastUpdated = 24 * Hour\<rparr>]\<rparr>)
     (25 * Hour) = None \<and>
   25 * Hour - Max (set (map LastUpdated
      [\<lparr>Version_entry = ''1.20.1'', Items = [''a.B.m''], LastUpdated = 0\<rparr>,
       \<lparr>Version_entry = ''1.21'', Items = [''a.C''], LastUpdated = 24 * Hour\<rparr>])) < 24 * Hour"
  by (simp add: main_replay_def isCacheValid_def Sub_def Hour_def)

text \<open>
  Claim C8, as amended. \<open>main\<close> replays the snapshot exactly when cache use was
  requested, the snapshot was loaded without error and has an entry, and the
  \<open>lastUpdated\<close> of its first entry is less than 24 hours old; the bound is strict: 25
  hours and exactly 24 hours are rejected, one hour is accepted.
\<close>

theorem replay_iff_first_entry_fresh:
  "(main_replay config loaded now \<noteq> None \<longleftrightarrow>
      UseCachedData config \<and>
      (\<exists>loadCache first rest. loaded = Inr loadCache \<and> Entries loadCache = first # rest \<and>
         now - LastUpdated first < 24 * Hour)) \<and>
   \<not> isCacheValid now (now - 25 * Hour) (24 * Hour) \<and>
   isCacheValid now (now - 1 * Hour) (24 * Hour) \<and>
   \<not> isCacheValid now (now - 24 * Hour) (24 * Hour)"
proof -
  have "main_replay config loaded now \<noteq> None \<longleftrightarrow>
      UseCachedData config \<and>
      (\<exists>loadCache first rest. loaded = Inr loadCache \<and> Entries loadCache = first # rest \<and>
         now - LastUpdated first < 24 * Hour)"
    by (auto simp: main_replay_def isCacheValid_def Sub_less_day split: sum.splits list.splits)
  moreover have "\<not> isCacheValid now (now - 25 * Hour) (24 * Hour)"
    "isCacheValid now (now - 1 * Hour) (24 * Hour)"
    "\<not> isCacheValid now (now - 24 * Hour) (24 * Hour)"
    by (simp_all add: isCacheValid_def Sub_def Hour_def)
  ultimately show ?thesis by blast
qed

theorem replay_iff_first_entry_fresh_witness:
  "main_replay \<lparr>BaseURL = ''https://jd.papermc.io/paper'', Version_cfg = ''1.21.3'', UseCachedData = True\<rparr>
     (Inr \<lparr>Entries = [\<lparr>Version_entry = ''1.21'', Items = [''a.C''], LastUpdated = 24 * Hour\<rparr>]\<rparr>)
     (25 * Hour) \<noteq> None"
proof -
  have "(25 * Hour) - LastUpdated \<lparr>Version_entry = ''1.21'', Items = [''a.C''], LastUpdated = 24 * Hour\<rparr>
        < 24 * Hour"
    by (simp add: Hour_def)
  with replay_iff_first_entry_fresh
    [of "\<lparr>BaseURL = ''https://jd.papermc.io/paper'', Version_cfg = ''1.21.3'', UseCachedData = True\<rparr>"
        "Inr \<lparr>Entries = [\<lparr>Version_entry = ''1.21'', Items = [''a.C''], LastUpdated = 24 * Hour\<rparr>]\<rparr>"
        "25 * Hour"]
  show ?thesis by simp
qed

section \<open>The report\<close>

text \<open>
  \<open>sort.Slice\<close> sorts when \<open>less\<close> is asymmetric and its negation is transitive, as
  \<open>CompareVersions\<close> and the order of the class names are.
\<close>

lemma sort_insert_Nil: "sort_insert lessf [] x = [x]"
  by (simp add: sort_insert_def)

lemma sort_insert_snoc:
  "sort_insert lessf (xs @ [y]) x =
     (if lessf x y then sort_insert lessf xs x @ [y] else xs @ [y, x])"
  by (simp add: sort_insert_def)

lemma set_sort_insert: "set (sort_insert lessf xs x) = insert x (set xs)"
  by (induction xs rule: rev_induct) (auto simp: sort_insert_Nil sort_insert_snoc)

lemma sorted_sort_insert:
  assumes asym: "\<forall>a b. lessf a b \<longrightarrow> \<not> lessf b a"
    and trans: "\<forall>a b c. \<not> lessf b a \<longrightarrow> \<not> lessf c b \<longrightarrow> \<not> lessf c a"
    and "sorted_wrt (\<lambda>a b. \<not> lessf b a) xs"
  shows "sorted_wrt (\<lambda>a b. \<not> lessf b a) (sort_insert lessf xs x)"
  using assms(3)
proof (induction xs rule: rev_induct)
  case Nil
  show ?case by (simp add: sort_insert_Nil)
next
  case (snoc y xs)
  from snoc.prems have xs: "sorted_wrt (\<lambda>a b. \<not> lessf b a) xs"
    and below: "\<forall>a \<in> set xs. \<not> lessf y a"
    by (simp_all add: sorted_wrt_append)
  show ?case
  proof (cases "lessf x y")
    case True
    then have "\<not> lessf y x" using asym by blast
    with True below snoc.IH [OF xs] show ?thesis
      by (simp add: sort_insert_snoc sorted_wrt_append set_sort_insert)
  next
    case False
    with below have "\<forall>a \<in> set xs. \<not> lessf x a"
      using trans by blast
    with False snoc.prems show ?thesis
      by (simp add: sort_insert_snoc sorted_wrt_append)
  qed
qed

lemma sorted_sort_Slice_acc:
  assumes asym: "\<forall>a b. lessf a b \<longrightarrow> \<not> lessf b a"
    and trans: "\<forall>a b c. \<not> lessf b a \<longrightarrow> \<not> lessf c b \<longrightarrow> \<not> lessf c a"
  shows "sorted_wrt (\<lambda>a b. \<not> lessf b a) acc
    \<Longrightarrow> sorted_wrt (\<lambda>a b. \<not> lessf b a) (foldl (sort_insert lessf) acc xs)"
proof (induction xs arbitrary: acc)
  case Nil
  then show ?case by simp
next
  case (Cons x xs)
  from Cons.prems have "sorted_wrt (\<lambda>a b. \<not> lessf b a) (sort_insert lessf acc x)"
    by (rule sorted_sort_insert [OF asym trans])
  from Cons.IH [OF this] show ?case by simp
qed

lemma sorted_sort_Slice:
  assumes "\<forall>a b. lessf a b \<longrightarrow> \<not> lessf b a"
    and "\<forall>a b c. \<not> lessf b a \<longrightarrow> \<not> lessf c b \<longrightarrow> \<not> lessf c a"
  shows "sorted_wrt (\<lambda>a b. \<not> lessf b a) (sort_Slice lessf xs)"
  using sorted_sort_Slice_acc [OF assms, of "[]" xs] by (simp add: sort_Slice_def)

lemma sorted_versions:
  "sorted_wrt (\<lambda>a b. \<not> CompareVersions b a) (sort_Slice CompareVersions xs)"
proof (rule sorted_sort_Slice)
  show "\<forall>a b. CompareVersions a b \<longrightarrow> \<not> CompareVersions b a"
    by (simp add: CompareVersions_key less_imp_not_less)
  show "\<forall>a b c. \<not> CompareVersions b a \<longrightarrow> \<not> CompareVersions c b \<longrightarrow> \<not> CompareVersions c a"
    by (simp add: CompareVersions_key not_less) (meson order_trans)
qed

lemma sorted_classes:
  "sorted (map ClassName (sort_Slice (\<lambda>a b. ClassName a < ClassName b) cs))"
proof -
  have "sorted_wrt (\<lambda>a b. \<not> ClassName b < ClassName a)
          (sort_Slice (\<lambda>a b. ClassName a < ClassName b) cs)"
  proof (rule sorted_sort_Slice)
    show "\<forall>a b. ClassName a < ClassName b \<longrightarrow> \<not> ClassName b < ClassName a"
      by (simp add: less_imp_not_less)
    show "\<forall>a b c. \<not> ClassName b < ClassName a \<longrightarrow> \<not> ClassName c < ClassName b
                  \<longrightarrow> \<not> ClassName c < ClassName a"
      by (simp add: not_less) (meson order_trans)
  qed
  then show ?thesis
    by (simp add: sorted_map not_less)
qed

lemma unknown_items_saving:
  "snd (group_results_saving results (versionGroups, unknownVersionItems))
   = unknownVersionItems @ map item_of (filter (\<lambda>r. Error r \<noteq> None) results)"
  by (induction results arbitrary: versionGroups unknownVersionItems) simp_all

text \<open>Ranging over a map visits every entry once.\<close>

lemma range_order_mset: "mset (range_order seed m) = mset m"
proof (induction seed m rule: range_order.induct)
  case (3 k seed x xs)
  let ?m = "x # xs"
  let ?i = "k mod length ?m"
  have i: "?i < length ?m" by simp
  then have "?m = take ?i ?m @ ?m ! ?i # drop (Suc ?i) ?m"
    by (rule id_take_nth_drop)
  then have "mset ?m = mset (take ?i ?m @ drop (Suc ?i) ?m) + {#?m ! ?i#}"
    by (metis mset_append add_mset_add_single union_mset_add_mset_right mset.simps(2))
  with 3 show ?case by (simp add: Let_def)
qed simp_all

text \<open>
  The variant that saves the cache: the groups of the known versions come first, no
  group before a newer one; the group "Unknown Version" is there exactly when a result
  failed, and is last; in every group the class groups are sorted by class name.
\<close>

lemma report_groups_saving_ordered:
  "\<exists>known.
     report_groups_saving ord results
       = known @ (if \<exists>r \<in> set results. Error r \<noteq> None then [unknown_group results] else []) \<and>
     sorted_wrt (\<lambda>g h. \<not> CompareVersions (Version_group h) (Version_group g)) known \<and>
     (\<forall>g \<in> set (report_groups_saving ord results). sorted (map ClassName (Classes g)))"
proof -
  obtain vg u where g: "group_results_saving results ([], []) = (vg, u)"
    by (cases "group_results_saving results ([], [])")
  then have u: "u = map item_of (filter (\<lambda>r. Error r \<noteq> None) results)"
    using unknown_items_saving [of results "[]" "[]"] by simp
  then have ne: "0 < length u \<longleftrightarrow> (\<exists>r \<in> set results. Error r \<noteq> None)"
    by (auto simp: filter_empty_conv)
  let ?versions = "sort_Slice CompareVersions (range_order (versions_order ord) (map fst vg))"
  let ?known = "map (\<lambda>version.
      \<lparr>Version_group = version,
       Classes = sort_Slice (\<lambda>a b. ClassName a < ClassName b)
         (map class_group
            (range_order (classes_order ord version)
               (case map_of vg version of None \<Rightarrow> [] | Some m \<Rightarrow> m)))\<rparr>) ?versions"
  have eq: "report_groups_saving ord results
      = ?known @ (if \<exists>r \<in> set results. Error r \<noteq> None then [unknown_group results] else [])"
    using g ne by (simp add: report_groups_saving_def unknown_group_def u del: not_None_eq)
  have srt: "sorted_wrt (\<lambda>g h. \<not> CompareVersions (Version_group h) (Version_group g)) ?known"
    using sorted_versions [of "range_order (versions_order ord) (map fst vg)"]
    by (simp add: sorted_wrt_map)
  have cls: "\<forall>g \<in> set ?known. sorted (map ClassName (Classes g))"
    by (auto simp: sorted_classes)
  have "\<forall>g \<in> set (report_groups_saving ord results). sorted (map ClassName (Classes g))"
    unfolding eq using cls by (auto simp: unknown_group_def)
  with eq srt show ?thesis by blast
qed


lemma generateReport_saving_groups:
  "generateReport_saving w ord now results cachedTime = Handed report reportCache
   \<Longrightarrow> Groups report = report_groups_saving ord results"
  by (auto simp: generateReport_saving_def Let_def split: sum.splits option.splits)

text \<open>
  \<open>cmd/main.go\<close>: the groups of the versions are ordered in the same way and the
  group of the failed results, "Unknown Version", is last, but nothing orders the class
  groups.
\<close>

lemma append_at_nonempty [simp]: "append_at k v m \<noteq> []"
  by (cases m) (auto split: if_splits)

lemma unknown_items_empty:
  "snd (group_results results (versionGroups, unknownVersionItems)) = [] \<longleftrightarrow>
     unknownVersionItems = [] \<and> (\<forall>r \<in> set results. Error r = None)"
  by (induction results arbitrary: versionGroups unknownVersionItems) auto

lemma generateReport_versions_ordered:
  "\<exists>known classes.
     Groups (generateReport ord now results cachedTime)
       = known @ (if \<exists>r \<in> set results. Error r \<noteq> None
                  then [\<lparr>Version_group = ''Unknown Version'', Classes = classes\<rparr>] else []) \<and>
     sorted_wrt (\<lambda>g h. \<not> CompareVersions (Version_group h) (Version_group g)) known"
proof -
  obtain vg u where g: "group_results results ([], []) = (vg, u)"
    by (cases "group_results results ([], [])")
  then have ne: "0 < length u \<longleftrightarrow> (\<exists>r \<in> set results. Error r \<noteq> None)"
    using unknown_items_empty [of results "[]" "[]"] by auto
  let ?versions = "sort_Slice CompareVersions (range_order (versions_order ord) (map fst vg))"
  let ?known = "map (\<lambda>version.
      \<lparr>Version_group = version,
       Classes = map class_group
            (range_order (classes_order ord version)
               (case map_of vg version of None \<Rightarrow> [] | Some m \<Rightarrow> m))\<rparr>) ?versions"
  have eq: "Groups (generateReport ord now results cachedTime)
      = ?known @ (if \<exists>r \<in> set results. Error r \<noteq> None
                  then [\<lparr>Version_group = ''Unknown Version'',
                         Classes = map class_group (range_order (unknown_order ord) u)\<rparr>]
                  else [])"
    using g ne by (simp add: generateReport_def Let_def del: not_None_eq)
  have srt: "sorted_wrt (\<lambda>g h. \<not> CompareVersions (Version_group h) (Version_group g)) ?known"
    using sorted_versions [of "range_order (versions_order ord) (map fst vg)"]
    by (simp add: sorted_wrt_map)
  from eq srt show ?thesis by blast
qed

text \<open>The two results of the scenario, in both variants.\<close>

lemma getClassPath_examples:
  "getClassPath ''b.X.f'' = ''b.X''" "getClassPath ''a.Y.g'' = ''a.Y''"
  by (simp_all add: getClassPath_def)

lemma report_groups_saving_two_classes:
  "report_groups_saving insertion_order two_classes =
     [\<lparr>Version_group = ''1.20.1'',
       Classes = [\<lparr>ClassName = ''a.Y'', Items_class = [\<lparr>FullPath = ''a.Y.g'', Name = ''a.Y.g''\<rparr>]\<rparr>,
                  \<lparr>ClassName = ''b.X'', Items_class = [\<lparr>FullPath = ''b.X.f'', Name = ''b.X.f''\<rparr>]\<rparr>]\<rparr>]"
  by (simp add: report_groups_saving_def insertion_order_def two_classes_def getClassPath_examples
      item_of_def class_group_def sort_Slice_def sort_insert_def)


text \<open>
  Claim C7 says that within each version group the class groups are sorted by class
  name. In \<open>generateReport\<close> of \<open>cmd/main.go\<close> they come in the order in which
  \<open>range\<close> visits the map of the version, and are not sorted afterwards: for two
  results of version 1.20.1 with the classes \<open>b.X\<close> and \<open>a.Y\<close>, when the map is
  visited in the order of insertion, the report lists \<open>b.X\<close> before \<open>a.Y\<close>. (The
  variant that saves the cache sorts them: \<open>report_groups_saving_two_classes\<close>.)
\<close>

theorem generateReport_classes_in_map_order:
  "Groups (generateReport insertion_order now two_classes None) =
     [\<lparr>Version_group = ''1.20.1'',
       Classes = [\<lparr>ClassName = ''b.X'', Items_class = [\<lparr>FullPath = ''b.X.f'', Name = ''b.X.f''\<rparr>]\<rparr>,
                  \<lparr>ClassName = ''a.Y'', Items_class = [\<lparr>FullPath = ''a.Y.g'', Name = ''a.Y.g''\<rparr>]\<rparr>]\<rparr>] \<and>
   \<not> sorted [''b.X'', ''a.Y'']"
  by (simp add: generateReport_def insertion_order_def two_classes_def getClassPath_examples
      item_of_def class_group_def sort_Slice_def sort_insert_def)

end
